(* ===== verification/Prelude_Net.thy ===== *)
theory Prelude_Net
  imports Main "HOL-Library.Word"
begin

text \<open>
  Prelude of the development: the types that every program of the repository shares
  (bytes, buffers, the C integer types of a 64-bit platform), the collections of
  rewrite rules the component theories extend, and the generic facts on slices of a
  byte array (\<open>seg\<close>, what \<open>fread\<close> at an offset delivers) and on stores into one
  (\<open>blit\<close>, what \<open>memcpy\<close> or \<open>recv\<close> into a buffer does).
\<close>

section \<open>Types\<close>

type_synonym bytes = "char list"
type_synonym size_t = "64 word"
type_synonym file_system = "string \<Rightarrow> bytes option"

text \<open>
  C conversions. A \<open>long\<close> or \<open>size_t\<close> stored into an \<open>int\<close> keeps its low 32 bits read in
  two's complement; an \<open>int\<close> or \<open>ssize_t\<close> stored into a \<open>size_t\<close> is taken modulo
  \<open>2^64\<close>; a \<open>size_t\<close> stored into an \<open>ssize_t\<close> is read in two's complement.
\<close>

definition to_int :: "int \<Rightarrow> int" where
  "to_int n = sint (word_of_int n :: 32 word)"

definition to_size :: "int \<Rightarrow> size_t" where
  "to_size n = word_of_int n"

definition to_ssize :: "size_t \<Rightarrow> int" where
  "to_ssize w = sint w"

definition INT_MAX :: int where
  "INT_MAX = 2147483647"

named_theorems seg_simps \<open>normal forms of slices and stores\<close>
named_theorems c_defs \<open>unfolding of the C library models\<close>


section \<open>Words\<close>

lemma to_int_small: "- 2147483648 \<le> n \<Longrightarrow> n \<le> 2147483647 \<Longrightarrow> to_int n = n"
  by (simp add: to_int_def sint_sbintrunc' signed_take_bit_int_eq_self)

lemma unat_to_size: "0 \<le> n \<Longrightarrow> n < 2 ^ 64 \<Longrightarrow> unat (to_size n) = nat n"
  by (simp add: to_size_def unat_eq_nat_uint uint_word_of_int_eq take_bit_int_eq_self)

lemma unat_of_nat_size: "n < 2 ^ 64 \<Longrightarrow> unat (word_of_nat n :: size_t) = n"
  by (simp add: unat_of_nat take_bit_nat_eq_self)

lemma unat_size_bound: "unat (w :: size_t) < 2 ^ 64"
  using unsigned_less [of w] by simp

lemma unat_add_size: "unat (a + b :: size_t) = (unat a + unat b) mod 2 ^ 64"
  by (simp add: unat_word_ariths)

lemma unat_add_size_no_wrap:
  "unat a + unat b < 2 ^ 64 \<Longrightarrow> unat (a + b :: size_t) = unat a + unat b"
  by (simp add: unat_add_size)

lemma unat_mult_size_no_wrap:
  "unat a * unat b < 2 ^ 64 \<Longrightarrow> unat (a * b :: size_t) = unat a * unat b"
  by (simp add: unat_word_ariths)

lemma unat_sub_size: "b \<le> a \<Longrightarrow> unat (a - b :: size_t) = unat a - unat b"
  by (rule unat_sub)

lemma unat_neg_size: "0 < unat (w :: size_t) \<Longrightarrow> 2 ^ 64 \<le> unat w + unat (- w)"
  using unat_add_size [of w "- w"] by (cases "unat w + unat (- w) < 2 ^ 64") simp_all

lemma to_ssize_small: "unat w < 2 ^ 63 \<Longrightarrow> to_ssize w = int (unat w)"
proof -
  assume small: "unat w < 2 ^ 63"
  have eq: "uint w = int (unat w)" by simp
  from small have "int (unat w) < int (2 ^ 63)" by (simp only: of_nat_less_iff)
  then have "int (unat w) < 2 ^ 63" by simp
  moreover have "- (2 ^ 63) \<le> int (unat w)" by (rule order_trans [of _ 0]) simp_all
  ultimately have "signed_take_bit 63 (uint w) = uint w"
    unfolding eq by (intro signed_take_bit_int_eq_self)
  then show ?thesis
    by (simp add: to_ssize_def sint_uint)
qed

section \<open>Slices and stores\<close>

definition seg :: "nat \<Rightarrow> nat \<Rightarrow> 'a list \<Rightarrow> 'a list" where
  "seg off n xs = take n (drop off xs)"

definition blit :: "nat \<Rightarrow> 'a list \<Rightarrow> 'a list \<Rightarrow> 'a list" where
  "blit off ys xs = take off xs @ ys @ drop (off + length ys) xs"

lemma length_seg [simp]: "off + n \<le> length xs \<Longrightarrow> length (seg off n xs) = n"
  by (simp add: seg_def)

lemma length_seg_min: "length (seg off n xs) = min n (length xs - off)"
  by (simp add: seg_def min.commute)

lemma seg_0 [simp]: "seg off 0 xs = []"
  by (simp add: seg_def)

lemma seg_all [simp]: "seg 0 (length xs) xs = xs"
  by (simp add: seg_def)

lemma seg_append: "seg off (m + n) xs = seg off m xs @ seg (off + m) n xs"
  by (simp add: seg_def take_add add.commute)

lemma take_seg: "take m (seg off n xs) = seg off (min m n) xs"
  by (simp add: seg_def)

lemma drop_seg: "drop m (seg off n xs) = seg (off + m) (n - m) xs"
  by (simp add: seg_def drop_take add.commute)

lemma seg_length_self: "seg off (length (seg off n xs)) xs = seg off n xs"
  by (auto simp: seg_def min_def)

text \<open>One read of at most \<open>k\<close> bytes out of \<open>n\<close>, and the rest.\<close>

lemma seg_read:
  assumes "k \<le> n"
  shows "seg off k xs @ seg (off + length (seg off k xs)) (n - length (seg off k xs)) xs = seg off n xs"
proof -
  let ?l = "length (seg off k xs)"
  have "?l \<le> n" using assms by (simp add: length_seg_min)
  then have "seg off n xs = seg off ?l xs @ seg (off + ?l) (n - ?l) xs"
    using seg_append [of off ?l "n - ?l" xs] by simp
  then show ?thesis by (simp add: seg_length_self)
qed

lemma seg_eq_Nil: "seg off n xs = [] \<longleftrightarrow> n = 0 \<or> length xs \<le> off"
  by (auto simp: seg_def)

lemma nth_seg: "i < n \<Longrightarrow> off + i < length xs \<Longrightarrow> seg off n xs ! i = xs ! (off + i)"
  by (simp add: seg_def)

lemma length_blit [simp]: "off + length ys \<le> length xs \<Longrightarrow> length (blit off ys xs) = length xs"
  by (simp add: blit_def)

lemma blit_Nil [simp]: "off \<le> length xs \<Longrightarrow> blit off [] xs = xs"
  by (simp add: blit_def)

lemma nth_blit:
  assumes "off + length ys \<le> length xs" and "i < length xs"
  shows "blit off ys xs ! i =
    (if off \<le> i \<and> i < off + length ys then ys ! (i - off) else xs ! i)"
  using assms by (auto simp: blit_def nth_append min_def)

lemma seg_blit_same [seg_simps]:
  "off + length ys \<le> length xs \<Longrightarrow> n = length ys \<Longrightarrow> seg off n (blit off ys xs) = ys"
  by (simp add: seg_def blit_def)

lemma seg_blit_disjoint [seg_simps]:
  assumes "off + length ys \<le> length xs" and "o' + n \<le> off \<or> off + length ys \<le> o'"
    and "o' + n \<le> length xs"
  shows "seg o' n (blit off ys xs) = seg o' n xs"
proof (rule nth_equalityI)
  show "length (seg o' n (blit off ys xs)) = length (seg o' n xs)"
    using assms by simp
  fix i assume "i < length (seg o' n (blit off ys xs))"
  with assms have "i < n" and "o' + i < length xs" by auto
  with assms show "seg o' n (blit off ys xs) ! i = seg o' n xs ! i"
    by (auto simp: nth_seg nth_blit)
qed

lemma seg_blit_prefix [seg_simps]:
  assumes "off + m + length ys \<le> length xs"
  shows "seg off (m + length ys) (blit (off + m) ys xs) = seg off m xs @ ys"
  using assms by (simp add: seg_append seg_simps)

lemma blit_append:
  assumes "off + length (ys @ zs) \<le> length xs"
  shows "blit (off + length ys) zs (blit off ys xs) = blit off (ys @ zs) xs"
  using assms by (simp add: blit_def ac_simps)

lemma seg_blit_inside:
  assumes "lo \<le> pos" and "pos + length ys \<le> hi" and "hi \<le> length m"
  shows "seg lo (hi - lo) (blit pos ys m) = blit (pos - lo) ys (seg lo (hi - lo) m)"
proof (rule nth_equalityI)
  show "length (seg lo (hi - lo) (blit pos ys m)) = length (blit (pos - lo) ys (seg lo (hi - lo) m))"
    using assms by simp
  fix i assume "i < length (seg lo (hi - lo) (blit pos ys m))"
  with assms have i: "i < hi - lo" "lo + i < length m" by auto
  have l: "length (seg lo (hi - lo) m) = hi - lo" using assms by simp
  have "blit (pos - lo) ys (seg lo (hi - lo) m) ! i =
    (if pos - lo \<le> i \<and> i < pos - lo + length ys then ys ! (i - (pos - lo)) else seg lo (hi - lo) m ! i)"
    using assms i l by (intro nth_blit) auto
  moreover have "seg lo (hi - lo) (blit pos ys m) ! i = blit pos ys m ! (lo + i)"
    using assms i by (intro nth_seg) auto
  moreover have "blit pos ys m ! (lo + i) =
    (if pos \<le> lo + i \<and> lo + i < pos + length ys then ys ! (lo + i - pos) else m ! (lo + i))"
    using assms i by (intro nth_blit) auto
  moreover have "lo + i - pos = i - (pos - lo)" if "pos \<le> lo + i" using assms(1) that by auto
  ultimately show "seg lo (hi - lo) (blit pos ys m) ! i = blit (pos - lo) ys (seg lo (hi - lo) m) ! i"
    using i assms(1) by (auto simp: nth_seg)
qed

lemma blit_whole [simp]: "length ys = length xs \<Longrightarrow> blit 0 ys xs = ys"
  by (simp add: blit_def)

end
