(* ===== verification/CText.thy ===== *)
theory CText
  imports Prelude_Net
begin

text \<open>
  The part of the C library the programs use on text: NUL-terminated strings in fixed
  buffers (\<open>strlen\<close>, \<open>strcmp\<close>, \<open>strncmp\<close>, \<open>strchr\<close>, \<open>strcspn\<close>), decimal
  printing (\<open>%zu\<close>, \<open>%d\<close> of \<open>snprintf\<close>), \<open>atoi\<close>, and an interpreter for the
  \<open>sscanf\<close> formats of the sources. The lemmas are the round trips between printing and
  scanning that the request formats of the programs rest on.
\<close>

section \<open>Strings in buffers\<close>

definition NUL :: char where
  "NUL = CHR 0x00"

text \<open>A buffer of \<open>n\<close> bytes, zeroed, into which \<open>data\<close> was received.\<close>

definition zeroed :: "nat \<Rightarrow> bytes \<Rightarrow> bytes" where
  "zeroed n data = data @ replicate (n - length data) NUL"

definition cstr :: "bytes \<Rightarrow> string" where
  "cstr buf = takeWhile (\<lambda>c. c \<noteq> NUL) buf"

definition terminated :: "bytes \<Rightarrow> bool" where
  "terminated buf \<longleftrightarrow> NUL \<in> set buf"

definition strncmp_eq :: "nat \<Rightarrow> string \<Rightarrow> string \<Rightarrow> bool" where
  "strncmp_eq n a b \<longleftrightarrow> take n (cstr a) = take n (cstr b)"

definition strcspn_nl :: "bytes \<Rightarrow> nat" where
  "strcspn_nl buf = length (takeWhile (\<lambda>c. c \<noteq> CHR ''\<newline>'') (cstr buf))"

fun strchr :: "char \<Rightarrow> string \<Rightarrow> nat option" where
  "strchr c [] = None"
| "strchr c (x # xs) = (if x = c then Some 0 else map_option Suc (strchr c xs))"

text \<open>\<open>snprintf(buf, n, ...)\<close> keeps at most \<open>n - 1\<close> characters of the text.\<close>

definition snprintf :: "nat \<Rightarrow> string \<Rightarrow> string" where
  "snprintf n t = take (n - 1) t"

declare NUL_def [c_defs] cstr_def [c_defs] strncmp_eq_def [c_defs] snprintf_def [c_defs]

lemma cstr_no_NUL: "NUL \<notin> set s \<Longrightarrow> cstr s = s"
  by (induction s) (auto simp: cstr_def)

lemma cstr_idem [simp]: "cstr (cstr s) = cstr s"
  by (simp add: cstr_def)

lemma NUL_notin_cstr [simp]: "NUL \<notin> set (cstr s)"
  by (auto simp: cstr_def dest: set_takeWhileD)

lemma cstr_append: "NUL \<notin> set s \<Longrightarrow> cstr (s @ t) = s @ cstr t"
  by (induction s) (auto simp: cstr_def)

lemma cstr_append_NUL [simp]: "NUL \<notin> set s \<Longrightarrow> cstr (s @ NUL # t) = s"
  by (induction s) (auto simp: cstr_def)

lemma cstr_zeroed [simp]: "NUL \<notin> set s \<Longrightarrow> cstr (zeroed n s) = s"
  by (cases "n - length s") (simp_all add: zeroed_def cstr_no_NUL)

lemma length_zeroed: "length data \<le> n \<Longrightarrow> length (zeroed n data) = n"
  by (simp add: zeroed_def)

lemma terminated_zeroed: "length data < n \<Longrightarrow> terminated (zeroed n data)"
  by (simp add: terminated_def zeroed_def)

lemma snprintf_id [simp]: "length s < n \<Longrightarrow> snprintf n s = s"
  by (simp add: snprintf_def)

lemma strchr_None: "strchr c s = None \<longleftrightarrow> c \<notin> set s"
  by (induction s) auto

lemma strchr_append: "c \<notin> set s \<Longrightarrow> strchr c (s @ c # t) = Some (length s)"
  by (induction s) auto

lemma strchr_Some:
  "strchr c s = Some i \<Longrightarrow> i < length s \<and> s ! i = c \<and> c \<notin> set (take i s)"
  by (induction s arbitrary: i) (auto split: if_splits)

section \<open>Character classes\<close>

definition isspace :: "char \<Rightarrow> bool" where
  "isspace c \<longleftrightarrow> c = CHR '' '' \<or> (9 \<le> (of_char c :: nat) \<and> (of_char c :: nat) \<le> 13)"

definition isdigit :: "char \<Rightarrow> bool" where
  "isdigit c \<longleftrightarrow> 48 \<le> (of_char c :: nat) \<and> (of_char c :: nat) \<le> 57"

definition digit_val :: "char \<Rightarrow> nat" where
  "digit_val c = of_char c - 48"

definition digit_char :: "nat \<Rightarrow> char" where
  "digit_char d = char_of (48 + d)"

text \<open>A word is what \<open>%s\<close> reads back in one piece: not empty, no white space, no NUL.\<close>

definition is_word :: "string \<Rightarrow> bool" where
  "is_word s \<longleftrightarrow> s \<noteq> [] \<and> (\<forall>c \<in> set s. \<not> isspace c \<and> c \<noteq> NUL)"

lemma digit_val_char [simp]: "d < 10 \<Longrightarrow> digit_val (digit_char d) = d"
  by (simp add: digit_val_def digit_char_def of_char_of take_bit_eq_mod)

lemma isdigit_char [simp]: "d < 10 \<Longrightarrow> isdigit (digit_char d)"
  by (simp add: isdigit_def digit_char_def of_char_of)

lemma isdigit_not_space: "isdigit c \<Longrightarrow> \<not> isspace c"
  by (auto simp: isdigit_def isspace_def)

lemma isdigit_not_NUL: "isdigit c \<Longrightarrow> c \<noteq> NUL"
  by (auto simp: isdigit_def NUL_def)

lemma isdigit_not_sign: "isdigit c \<Longrightarrow> c \<noteq> CHR ''-'' \<and> c \<noteq> CHR ''+''"
  by (auto simp: isdigit_def)

lemma space_isspace [simp]: "isspace (CHR '' '')" "\<not> isdigit (CHR '' '')"
  by (simp_all add: isspace_def isdigit_def)

lemma newline_isspace [simp]: "isspace (CHR ''\<newline>'')" "\<not> isdigit (CHR ''\<newline>'')"
  by (simp_all add: isspace_def isdigit_def)

lemma space_not_NUL [simp]: "CHR '' '' \<noteq> NUL" "CHR ''\<newline>'' \<noteq> NUL"
  by (simp_all add: NUL_def)

lemma is_word_NUL: "is_word s \<Longrightarrow> NUL \<notin> set s"
  by (auto simp: is_word_def)

section \<open>Decimal numbers\<close>

fun show_nat :: "nat \<Rightarrow> string" where
  "show_nat n =
     (if n < 10 then [digit_char n] else show_nat (n div 10) @ [digit_char (n mod 10)])"

declare show_nat.simps [simp del]

definition show_int :: "int \<Rightarrow> string" where
  "show_int n = (if n < 0 then CHR ''-'' # show_nat (nat (- n)) else show_nat (nat n))"

definition show_size :: "size_t \<Rightarrow> string" where
  "show_size w = show_nat (unat w)"

definition digits_val :: "string \<Rightarrow> nat" where
  "digits_val s = foldl (\<lambda>a c. 10 * a + digit_val c) 0 s"

lemma show_nat_nonempty [simp]: "show_nat n \<noteq> []"
  by (subst show_nat.simps) simp

lemma show_nat_digits: "\<forall>c \<in> set (show_nat n). isdigit c"
proof (induction n rule: show_nat.induct)
  case (1 n)
  then show ?case
    by (cases "n < 10") (auto simp: show_nat.simps [of n])
qed

lemma digits_val_show [simp]: "digits_val (show_nat n) = n"
proof (induction n rule: show_nat.induct)
  case (1 n)
  show ?case
  proof (cases "n < 10")
    case True
    then show ?thesis by (simp add: show_nat.simps [of n] digits_val_def)
  next
    case False
    with "1.IH" have "digits_val (show_nat (n div 10)) = n div 10" by simp
    with False show ?thesis
      by (simp add: show_nat.simps [of n] digits_val_def)
  qed
qed

lemma length_show_nat: "n < 10 ^ k \<Longrightarrow> 0 < k \<Longrightarrow> length (show_nat n) \<le> k"
proof (induction k arbitrary: n)
  case 0
  then show ?case by simp
next
  case (Suc k)
  show ?case
  proof (cases "n < 10")
    case True
    then show ?thesis by (simp add: show_nat.simps [of n])
  next
    case False
    with Suc.prems have "n div 10 < 10 ^ k" and "0 < k"
      by (auto intro: gr0I simp: less_mult_imp_div_less mult.commute)
    with Suc.IH [of "n div 10"] False show ?thesis
      by (simp add: show_nat.simps [of n])
  qed
qed

lemma length_show_size: "length (show_size w) \<le> 20"
proof -
  have "unat w < 10 ^ 20" using unat_size_bound [of w] by simp
  then show ?thesis unfolding show_size_def by (rule length_show_nat) simp
qed

lemma show_nat_is_word: "is_word (show_nat n)"
  using show_nat_digits [of n] by (auto simp: is_word_def isdigit_not_space isdigit_not_NUL)

lemma show_nat_no_sign:
  "show_nat n = c # cs \<Longrightarrow> c \<noteq> CHR ''-'' \<and> c \<noteq> CHR ''+'' \<and> \<not> isspace c"
  using show_nat_digits [of n] by (auto dest: isdigit_not_sign isdigit_not_space)

lemma show_nat_no_slash: "CHR ''/'' \<notin> set (show_nat n)" "CHR '':'' \<notin> set (show_nat n)"
  using show_nat_digits [of n] by (auto simp: isdigit_def)

section \<open>Scanning numbers: strtol, strtoul and atoi\<close>

text \<open>
  The optional sign and the digits at the front of a text: \<open>None\<close> when there is no
  digit (a matching failure), otherwise whether the number is negative, its magnitude
  and the rest of the text.
\<close>

definition scan_digits :: "string \<Rightarrow> (nat \<times> string) option" where
  "scan_digits s =
     (let ds = takeWhile isdigit s
      in if ds = [] then None else Some (digits_val ds, dropWhile isdigit s))"

definition scan_number :: "string \<Rightarrow> (bool \<times> nat \<times> string) option" where
  "scan_number s =
     (case s of
        [] \<Rightarrow> None
      | c # cs \<Rightarrow>
          (if c = CHR ''-'' then map_option (\<lambda>(n, r). (True, n, r)) (scan_digits cs)
           else if c = CHR ''+'' then map_option (\<lambda>(n, r). (False, n, r)) (scan_digits cs)
           else map_option (\<lambda>(n, r). (False, n, r)) (scan_digits s)))"

text \<open>\<open>strtoul\<close> saturates at \<open>ULONG_MAX\<close> and negates modulo \<open>2^64\<close>; \<open>strtol\<close> saturates.\<close>

definition strtoul_val :: "bool \<Rightarrow> nat \<Rightarrow> size_t" where
  "strtoul_val neg n =
     (if 2 ^ 64 \<le> n then - 1 else if neg then - word_of_nat n else word_of_nat n)"

definition strtol_val :: "bool \<Rightarrow> nat \<Rightarrow> int" where
  "strtol_val neg n =
     (if neg then max (- (2 ^ 63)) (- int n) else min (2 ^ 63 - 1) (int n))"

definition atoi :: "string \<Rightarrow> int" where
  "atoi s =
     (case scan_number (dropWhile isspace s) of
        None \<Rightarrow> 0
      | Some (neg, n, _) \<Rightarrow> to_int (strtol_val neg n))"

section \<open>The formats of sscanf\<close>

text \<open>
  One directive per item of a format: white space, an ordinary character, \<open>%s\<close> with an
  optional field width, \<open>%zu\<close> and \<open>%d\<close>. A scan gives the values assigned so far,
  whether it stopped at the end of the input, and the text it has not consumed.
\<close>

datatype directive = WS | Lit char | Conv_s "nat option" | Conv_zu | Conv_d

datatype scanned = SStr string | SSize size_t | SInt int

definition take_word :: "nat option \<Rightarrow> string \<Rightarrow> string \<times> string" where
  "take_word w s =
     (let t = takeWhile (\<lambda>c. \<not> isspace c) (case w of None \<Rightarrow> s | Some n \<Rightarrow> take n s)
      in (t, drop (length t) s))"

text \<open>A failed number conversion has consumed a lone sign.\<close>

definition after_sign :: "string \<Rightarrow> string" where
  "after_sign s =
     (case s of
        [] \<Rightarrow> []
      | c # cs \<Rightarrow> if c = CHR ''-'' \<or> c = CHR ''+'' then cs else s)"

fun scan :: "directive list \<Rightarrow> string \<Rightarrow> scanned list \<times> bool \<times> string" where
  "scan [] s = ([], False, s)"
| "scan (WS # ds) s = scan ds (dropWhile isspace s)"
| "scan (Lit c # ds) s =
     (case s of
        [] \<Rightarrow> ([], True, [])
      | x # xs \<Rightarrow> if x = c then scan ds xs else ([], False, s))"
| "scan (Conv_s w # ds) s =
     (let s' = dropWhile isspace s
      in if s' = [] then ([], True, [])
         else let (t, r) = take_word w s'; (vs, e, q) = scan ds r in (SStr t # vs, e, q))"
| "scan (Conv_zu # ds) s =
     (let s' = dropWhile isspace s
      in if s' = [] then ([], True, [])
         else case scan_number s' of
           None \<Rightarrow> ([], False, after_sign s')
         | Some (neg, n, r) \<Rightarrow>
             (let (vs, e, q) = scan ds r in (SSize (strtoul_val neg n) # vs, e, q)))"
| "scan (Conv_d # ds) s =
     (let s' = dropWhile isspace s
      in if s' = [] then ([], True, [])
         else case scan_number s' of
           None \<Rightarrow> ([], False, after_sign s')
         | Some (neg, n, r) \<Rightarrow>
             (let (vs, e, q) = scan ds r in (SInt (to_int (strtol_val neg n)) # vs, e, q)))"

text \<open>The values an \<open>sscanf\<close> call assigns, and its return value (\<open>EOF\<close> is \<open>-1\<close>).\<close>

definition sscanf_vals :: "directive list \<Rightarrow> string \<Rightarrow> scanned list" where
  "sscanf_vals fmt s = fst (scan fmt s)"

definition sscanf_ret :: "directive list \<Rightarrow> string \<Rightarrow> int" where
  "sscanf_ret fmt s =
     (let (vs, eof, _) = scan fmt s in if vs = [] \<and> eof then - 1 else int (length vs))"

lemma scan_Lits: "scan (map Lit p @ ds) (p @ s) = scan ds s"
  by (induction p) simp_all

lemma scan_digits_show:
  "(r = [] \<or> \<not> isdigit (hd r)) \<Longrightarrow> scan_digits (show_nat n @ r) = Some (n, r)"
proof -
  assume r: "r = [] \<or> \<not> isdigit (hd r)"
  have all: "\<forall>c \<in> set (show_nat n). isdigit c" by (rule show_nat_digits)
  have stop: "takeWhile isdigit r = []" "dropWhile isdigit r = r"
    using r by (cases r, simp_all)+
  have "takeWhile isdigit (show_nat n @ r) = show_nat n"
    using all stop by simp
  moreover have "dropWhile isdigit (show_nat n @ r) = r"
    using all stop by simp
  ultimately show ?thesis by (simp add: scan_digits_def)
qed

lemma scan_number_show:
  "(r = [] \<or> \<not> isdigit (hd r)) \<Longrightarrow> scan_number (show_nat n @ r) = Some (False, n, r)"
  using show_nat_no_sign [of n] scan_digits_show [of r n]
  by (cases "show_nat n") (auto simp: scan_number_def)

lemma dropWhile_space_show [simp]: "dropWhile isspace (show_nat n @ r) = show_nat n @ r"
  using show_nat_no_sign [of n] by (cases "show_nat n") auto

lemma dropWhile_space_word: "is_word s \<Longrightarrow> dropWhile isspace (s @ r) = s @ r"
  by (cases s) (auto simp: is_word_def)

lemma take_word_append:
  assumes "is_word s" and "r = [] \<or> isspace (hd r)" and "case w of None \<Rightarrow> True | Some n \<Rightarrow> length s \<le> n"
  shows "take_word w (s @ r) = (s, r)"
proof -
  have sp: "\<forall>c \<in> set s. \<not> isspace c" using assms(1) by (auto simp: is_word_def)
  have stop: "takeWhile (\<lambda>c. \<not> isspace c) (take k r) = []" for k
    using assms(2) by (cases r; cases k) auto
  have stop': "takeWhile (\<lambda>c. \<not> isspace c) r = []"
    using assms(2) by (cases r) auto
  show ?thesis
    using assms(3) sp stop stop' by (auto simp: take_word_def takeWhile_append2 split: option.splits)
qed

lemma strtoul_val_unat [simp]: "strtoul_val False (unat w) = w"
  using unat_size_bound [of w] by (simp add: strtoul_val_def)

lemma scan_s_word [simp]:
  assumes "is_word s" and "r = [] \<or> isspace (hd r)" and "case w of None \<Rightarrow> True | Some n \<Rightarrow> length s \<le> n"
  shows "scan (Conv_s w # ds) (s @ r) = (let (vs, e, q) = scan ds r in (SStr s # vs, e, q))"
proof -
  have "s \<noteq> []" using assms(1) by (simp add: is_word_def)
  then show ?thesis
    using take_word_append [OF assms] dropWhile_space_word [OF assms(1), of r] by simp
qed

lemma scan_zu_show:
  assumes "r = [] \<or> \<not> isdigit (hd r)"
  shows "scan (Conv_zu # ds) (show_size n @ r) = (let (vs, e, q) = scan ds r in (SSize n # vs, e, q))"
  using scan_number_show [OF assms, of "unat n"] by (simp add: show_size_def)

lemma scan_d_show:
  assumes "r = [] \<or> \<not> isdigit (hd r)" and "n \<le> 2147483647"
  shows "scan (Conv_d # ds) (show_nat n @ r) = (let (vs, e, q) = scan ds r in (SInt (int n) # vs, e, q))"
proof -
  have "to_int (strtol_val False n) = int n"
    using assms(2) by (simp add: strtol_val_def min_def to_int_small)
  then show ?thesis using scan_number_show [OF assms(1), of n] by simp
qed

lemma scan_ws_word [simp]: "is_word s \<Longrightarrow> scan (WS # ds) (CHR '' '' # s @ r) = scan ds (s @ r)"
  by (simp add: dropWhile_space_word)

lemma scan_ws_show [simp]: "scan (WS # ds) (CHR '' '' # show_nat n @ r) = scan ds (show_nat n @ r)"
  by simp

text \<open>What \<open>%d\<close> printed, \<open>atoi\<close> reads back.\<close>

lemma atoi_show_nat: "n \<le> 2147483647 \<Longrightarrow> atoi (show_nat n) = int n"
  using scan_number_show [of "[]" n] dropWhile_space_show [of n "[]"]
  by (simp add: atoi_def strtol_val_def min_def to_int_small)

lemma to_int_bounds: "- 2147483648 \<le> to_int n \<and> to_int n \<le> 2147483647"
  using sint_greater_eq [of "word_of_int n :: 32 word"] sint_lt [of "word_of_int n :: 32 word"]
  by (simp add: to_int_def)

lemma atoi_bounds: "- 2147483648 \<le> atoi s \<and> atoi s \<le> 2147483647"
  by (simp add: atoi_def to_int_bounds split: option.splits)

section \<open>A size_t in memory\<close>

text \<open>\<open>memcpy(buffer, &seq_num, sizeof(seq_num))\<close> on a little-endian machine.\<close>

fun le_bytes :: "nat \<Rightarrow> nat \<Rightarrow> bytes" where
  "le_bytes 0 v = []"
| "le_bytes (Suc k) v = char_of (v mod 256) # le_bytes k (v div 256)"

fun le_val :: "bytes \<Rightarrow> nat" where
  "le_val [] = 0"
| "le_val (c # cs) = of_char c + 256 * le_val cs"

definition size_bytes :: "size_t \<Rightarrow> bytes" where
  "size_bytes w = le_bytes 8 (unat w)"

definition bytes_size :: "bytes \<Rightarrow> size_t" where
  "bytes_size b = word_of_nat (le_val (take 8 b))"

lemma length_le_bytes [simp]: "length (le_bytes k v) = k"
  by (induction k arbitrary: v) auto

lemma le_val_bytes: "v < 256 ^ k \<Longrightarrow> le_val (le_bytes k v) = v"
proof (induction k arbitrary: v)
  case 0
  then show ?case by simp
next
  case (Suc k)
  then have "le_val (le_bytes k (v div 256)) = v div 256"
    by (intro Suc.IH) (simp add: less_mult_imp_div_less mult.commute)
  then show ?case by simp
qed

lemma length_size_bytes [simp]: "length (size_bytes w) = 8"
  by (simp add: size_bytes_def)

lemma bytes_size_bytes [simp]: "bytes_size (size_bytes w @ r) = w"
proof -
  have "unat w < 256 ^ 8" using unat_size_bound [of w] by simp
  then have "le_val (size_bytes w) = unat w"
    unfolding size_bytes_def by (rule le_val_bytes)
  then show ?thesis by (simp add: bytes_size_def)
qed

section \<open>Tokens and substrings\<close>

text \<open>
  One call of \<open>strtok\<close>: the token and the text a following call with \<open>NULL\<close> goes on with.
  After the last token that text is empty and further calls give \<open>NULL\<close>.
\<close>

definition strtok :: "string \<Rightarrow> string \<Rightarrow> (string \<times> string) option" where
  "strtok delims s =
     (let t = dropWhile (\<lambda>c. c \<in> set delims) s
      in if t = [] then None
         else Some (takeWhile (\<lambda>c. c \<notin> set delims) t, drop 1 (dropWhile (\<lambda>c. c \<notin> set delims) t)))"

text \<open>\<open>strstr\<close>: the text from the first occurrence of the pattern on.\<close>

fun strstr :: "string \<Rightarrow> string \<Rightarrow> string option" where
  "strstr pat [] = (if pat = [] then Some [] else None)"
| "strstr pat (x # xs) = (if take (length pat) (x # xs) = pat then Some (x # xs) else strstr pat xs)"

lemma strtok_word:
  assumes "w \<noteq> []" and "set w \<inter> set delims = {}"
  shows "d \<in> set delims \<Longrightarrow> strtok delims (w @ d # r) = Some (w, r)" "strtok delims w = Some (w, [])"
proof -
  have all: "\<forall>c \<in> set w. c \<notin> set delims" using assms(2) by auto
  then have hd: "hd w \<notin> set delims" using assms(1) by simp
  have "dropWhile (\<lambda>c. c \<in> set delims) (w @ t) = w @ t" for t using hd assms(1) by (cases w) simp_all
  moreover have "takeWhile (\<lambda>c. c \<notin> set delims) w = w" "dropWhile (\<lambda>c. c \<notin> set delims) w = []" using all by simp_all
  ultimately show "d \<in> set delims \<Longrightarrow> strtok delims (w @ d # r) = Some (w, r)" "strtok delims w = Some (w, [])"
    using all assms(1) by (simp_all add: strtok_def takeWhile_append2 dropWhile_append2 del: takeWhile_eq_all_conv dropWhile_eq_Nil_conv)
qed

lemma strtok_skip: "d \<in> set delims \<Longrightarrow> strtok delims (d # s) = strtok delims s"
  by (simp add: strtok_def)

lemma strtok_Nil [simp]: "strtok delims [] = None"
  by (simp add: strtok_def)

lemma take_pattern_append: "take (length p) a = p \<Longrightarrow> take (length p) (a @ b) = p"
  by (metis append_take_drop_id append_eq_conv_conj append.assoc)

lemma strstr_take_None: "strstr pat (a @ b) = None \<Longrightarrow> strstr pat a = None"
proof (induction a)
  case Nil
  then show ?case by (cases b) (auto split: if_splits)
next
  case (Cons x a)
  then show ?case using take_pattern_append [of pat "x # a" b] by (auto split: if_splits)
qed

lemma strstr_suffix: "strstr pat s = Some t \<Longrightarrow> \<exists>a. s = a @ t \<and> take (length pat) t = pat"
proof (induction s)
  case (Cons x xs)
  show ?case
  proof (cases "take (length pat) (x # xs) = pat")
    case True
    with Cons.prems show ?thesis by auto
  next
    case False
    with Cons obtain a where "xs = a @ t" "take (length pat) t = pat" by auto
    then show ?thesis by (intro exI [of _ "x # a"]) simp
  qed
qed (simp split: if_splits)

lemma strstr_present: "strstr pat (a @ pat @ b) \<noteq> None"
proof (induction a)
  case Nil
  have "take (length pat) (pat @ b) = pat" by simp
  then show ?case by (cases "pat @ b") auto
qed simp

end
