(* ===== verification/Requests.thy ===== *)
theory Requests
  imports CText
begin

text \<open>
  The request and reply texts of the file transfer protocol that the TCP programs
  (\<open>ftp/\<close>) and the UDP programs (\<open>tftp/\<close>) share: what the clients print with
  \<open>snprintf\<close> and what the servers read with \<open>sscanf\<close>. Locals that an \<open>sscanf\<close> leaves
  alone keep whatever the stack held; the \<open>junk\<close> arguments stand for that.
\<close>

section \<open>Texts\<close>

record request =
  params :: int
  command :: string
  filename :: string
  offset :: size_t
  chunk_size :: size_t

text \<open>A frame of zero bytes, for concrete runs.\<close>

definition zero_request :: request where
  "zero_request = \<lparr>params = 0, command = [], filename = [], offset = 0, chunk_size = 0\<rparr>"

definition fmt_request :: "directive list" where
  "fmt_request = [Conv_s (Some 9), WS, Conv_s (Some 255), WS, Conv_zu, WS, Conv_zu]"

definition scan_request :: "request \<Rightarrow> string \<Rightarrow> request" where
  "scan_request junk s =
     (let vs = sscanf_vals fmt_request s
      in \<lparr>params = sscanf_ret fmt_request s,
          command = (case vs of SStr c # _ \<Rightarrow> c | _ \<Rightarrow> command junk),
          filename = (case vs of _ # SStr f # _ \<Rightarrow> f | _ \<Rightarrow> filename junk),
          offset = (case vs of _ # _ # SSize w # _ \<Rightarrow> w | _ \<Rightarrow> offset junk),
          chunk_size = (case vs of _ # _ # _ # SSize w # _ \<Rightarrow> w | _ \<Rightarrow> chunk_size junk)\<rparr>)"

definition check_request :: "nat \<Rightarrow> string \<Rightarrow> string" where
  "check_request bufsize f = snprintf bufsize (''CHECK '' @ f)"

definition get_request :: "nat \<Rightarrow> string \<Rightarrow> size_t \<Rightarrow> size_t \<Rightarrow> string" where
  "get_request bufsize f off sz =
     snprintf bufsize (''GET '' @ f @ '' '' @ show_size off @ '' '' @ show_size sz)"

definition ok_reply :: "nat \<Rightarrow> size_t \<Rightarrow> string" where
  "ok_reply bufsize fsz = snprintf bufsize (''OK '' @ show_size fsz)"

definition not_found_reply :: string where
  "not_found_reply = ''ERROR File not found''"

definition fmt_ok :: "directive list" where
  "fmt_ok = [Lit (CHR ''O''), Lit (CHR ''K''), WS, Conv_zu]"

definition scan_ok :: "size_t \<Rightarrow> string \<Rightarrow> size_t" where
  "scan_ok junk s = (case sscanf_vals fmt_ok s of [SSize w] \<Rightarrow> w | _ \<Rightarrow> junk)"

text \<open>A file name that \<open>%255s\<close> reads back: one word of at most 255 characters.\<close>

definition plain_name :: "string \<Rightarrow> bool" where
  "plain_name f \<longleftrightarrow> is_word f \<and> length f \<le> 255"

section \<open>Round trips\<close>

lemma is_word_GET [simp]: "is_word ''GET''"
  by (simp add: is_word_def isspace_def NUL_def)

lemma is_word_CHECK [simp]: "is_word ''CHECK''"
  by (simp add: is_word_def isspace_def NUL_def)

lemma is_word_show_size [simp]: "is_word (show_size w)"
  by (simp add: show_size_def show_nat_is_word)

lemma scan_ws_show_size [simp]:
  "scan (WS # ds) (CHR '' '' # show_size w @ r) = scan ds (show_size w @ r)"
  by (simp add: show_size_def)

lemma scan_get_text:
  assumes "plain_name f"
  shows "scan fmt_request (''GET'' @ CHR '' '' # f @ CHR '' '' # show_size off @ CHR '' '' # show_size sz @ []) =
    ([SStr ''GET'', SStr f, SSize off, SSize sz], False, [])"
proof -
  have f: "is_word f" "length f \<le> 255" using assms by (simp_all add: plain_name_def)
  have e: "scan [Conv_zu] (show_size sz @ []) = ([SSize sz], False, [])"
    by (subst scan_zu_show) simp_all
  have d: "scan [Conv_zu, WS, Conv_zu] (show_size off @ CHR '' '' # show_size sz @ []) =
    ([SSize off, SSize sz], False, [])"
    by (subst scan_zu_show) (simp_all only: e scan_ws_show_size Let_def split_conv, simp_all)
  have c: "scan [Conv_s (Some 255), WS, Conv_zu, WS, Conv_zu]
      (f @ CHR '' '' # show_size off @ CHR '' '' # show_size sz @ []) =
    ([SStr f, SSize off, SSize sz], False, [])"
    using f by (subst scan_s_word) (simp_all only: d scan_ws_show_size Let_def split_conv, simp_all)
  show ?thesis
    unfolding fmt_request_def
    using f(1) by (subst scan_s_word) (simp_all only: c scan_ws_word Let_def split_conv, simp_all)
qed

lemma length_get_text:
  "length (''GET '' @ f @ '' '' @ show_size off @ '' '' @ show_size sz) \<le> length f + 46"
  using length_show_size [of off] length_show_size [of sz] by simp

lemma get_request_text:
  assumes "plain_name f" and "302 \<le> n"
  shows "get_request n f off sz = ''GET'' @ CHR '' '' # f @ CHR '' '' # show_size off @ CHR '' '' # show_size sz @ []"
proof -
  have "length (''GET '' @ f @ '' '' @ show_size off @ '' '' @ show_size sz) < n"
    using length_get_text [of f off sz] assms unfolding plain_name_def by linarith
  then show ?thesis
    unfolding get_request_def by (subst snprintf_id) simp_all
qed

lemma scan_get_request:
  assumes "plain_name f" and "302 \<le> n"
  shows "scan_request junk (get_request n f off sz) =
    \<lparr>params = 4, command = ''GET'', filename = f, offset = off, chunk_size = sz\<rparr>"
  unfolding get_request_text [OF assms] scan_request_def sscanf_vals_def sscanf_ret_def
    scan_get_text [OF assms(1)] by simp

lemma scan_check_text:
  assumes "plain_name f"
  shows "scan fmt_request (''CHECK'' @ CHR '' '' # f @ []) = ([SStr ''CHECK'', SStr f], True, [])"
proof -
  have f: "is_word f" "length f \<le> 255" using assms by (simp_all add: plain_name_def)
  have c: "scan [Conv_s (Some 255), WS, Conv_zu, WS, Conv_zu] (f @ []) = ([SStr f], True, [])"
    using f by (subst scan_s_word) simp_all
  show ?thesis
    unfolding fmt_request_def
    using f(1) by (subst scan_s_word) (simp_all only: c scan_ws_word Let_def split_conv, simp_all)
qed

lemma scan_check_request:
  assumes "plain_name f" and "302 \<le> n"
  shows "scan_request junk (check_request n f) =
    \<lparr>params = 2, command = ''CHECK'', filename = f, offset = offset junk, chunk_size = chunk_size junk\<rparr>"
proof -
  have "check_request n f = ''CHECK'' @ CHR '' '' # f @ []"
    unfolding check_request_def using assms by (subst snprintf_id) (simp_all add: plain_name_def)
  then show ?thesis
    by (simp only: scan_request_def sscanf_vals_def sscanf_ret_def scan_check_text [OF assms(1)]) simp
qed

lemma scan_ok_reply:
  assumes "24 \<le> n"
  shows "scan_ok junk (ok_reply n fsz) = fsz"
proof -
  have "ok_reply n fsz = ''OK'' @ CHR '' '' # show_size fsz @ []"
    unfolding ok_reply_def using assms length_show_size [of fsz] by (subst snprintf_id) simp_all
  moreover have "scan [Conv_zu] (show_size fsz @ []) = ([SSize fsz], False, [])"
    by (subst scan_zu_show) simp_all
  ultimately show ?thesis
    by (simp add: scan_ok_def sscanf_vals_def fmt_ok_def del: append_Nil2)
qed

text \<open>After the error reply the size keeps its junk value.\<close>

lemma scan_ok_not_found: "scan_ok junk not_found_reply = junk"
  by (simp add: scan_ok_def sscanf_vals_def fmt_ok_def not_found_reply_def)

section \<open>Requests as received\<close>

lemma NUL_show_size [simp]: "NUL \<notin> set (show_size w)"
  by (simp add: is_word_NUL)

lemma NUL_letters [simp]: "NUL \<noteq> CHR ''G''" "NUL \<noteq> CHR ''E''" "NUL \<noteq> CHR ''T''" "NUL \<noteq> CHR ''C''"
  "NUL \<noteq> CHR ''H''" "NUL \<noteq> CHR ''K''" "NUL \<noteq> CHR ''O''" "NUL \<noteq> CHR '' ''"
  by (simp_all add: NUL_def)

lemma get_request_received:
  assumes "plain_name f" and "302 \<le> n"
  shows "cstr (get_request n f off sz) = get_request n f off sz"
    and "get_request n f off sz \<noteq> []"
    and "length (get_request n f off sz) < n"
proof -
  have f: "NUL \<notin> set f" "length f \<le> 255" using assms(1) by (auto simp: plain_name_def is_word_NUL)
  note t = get_request_text [OF assms, of off sz]
  show "cstr (get_request n f off sz) = get_request n f off sz"
    unfolding t by (rule cstr_no_NUL) (simp add: f(1))
  show "get_request n f off sz \<noteq> []" unfolding t by simp
  show "length (get_request n f off sz) < n"
    unfolding t using f(2) length_show_size [of off] length_show_size [of sz] assms(2) by simp
qed

lemma check_request_received:
  assumes "plain_name f" and "302 \<le> n"
  shows "cstr (check_request n f) = check_request n f"
    and "check_request n f \<noteq> []"
    and "length (check_request n f) < n"
proof -
  have f: "NUL \<notin> set f" "length f \<le> 255" using assms(1) by (auto simp: plain_name_def is_word_NUL)
  have t: "check_request n f = ''CHECK '' @ f"
    unfolding check_request_def using assms(2) f(2) by (subst snprintf_id) simp_all
  show "cstr (check_request n f) = check_request n f"
    unfolding t by (rule cstr_no_NUL) (simp add: f(1))
  show "check_request n f \<noteq> []" unfolding t by simp
  show "length (check_request n f) < n" unfolding t using f(2) assms(2) by simp
qed

end
