(* ===== verification/FtpServer.thy ===== *)
theory FtpServer
  imports Requests
begin

text \<open>
  The TCP file server, \<open>ftp/server.c\<close>: \<open>handle_client\<close> with its request checks, its
  CHECK and GET replies and its two nested send loops, and the accept loop of \<open>main\<close>.
  The environment is explicit: the file system is a map from names to contents, the
  result of \<open>recv\<close> is an optional byte string, and the results of successive
  \<open>write\<close> calls are a list of integers (\<open>-1\<close> for an error). Log output is not modelled.
\<close>

section \<open>Definitions\<close>

definition FTP_BUFFER_SIZE :: nat where
  "FTP_BUFFER_SIZE = 1048576"

text \<open>
  How a call ends: \<open>Returned\<close> with the socket closed, \<open>Exited\<close> when the process called
  \<open>exit(EXIT_FAILURE)\<close>, \<open>Blocked\<close> when a \<open>write\<close> has not returned, \<open>Overread\<close> when a
  \<open>write\<close> was asked for bytes outside \<open>buffer\<close> (undefined behaviour).
\<close>

datatype srv_status = Returned | Exited | Blocked | Overread

datatype send_result = Sent | Send_error | Send_blocked | Send_overread

text \<open>
  The inner loop: \<open>bytes_to_send\<close> and \<open>bytes_sent_total\<close> are \<open>size_t\<close>, and so is the
  variable the result of \<open>write\<close> is stored in, so the test \<open>bytes_sent <= 0\<close> only sees 0.
\<close>

fun send_all :: "bytes \<Rightarrow> size_t \<Rightarrow> size_t \<Rightarrow> int list \<Rightarrow> bytes \<times> send_result \<times> int list" where
  "send_all buf to_send sent_total [] =
     (if to_send = 0 then ([], Sent, [])
      else if length buf < unat sent_total + unat to_send then ([], Send_overread, [])
      else ([], Send_blocked, []))"
| "send_all buf to_send sent_total (r # rs) =
     (if to_send = 0 then ([], Sent, r # rs)
      else if length buf < unat sent_total + unat to_send then ([], Send_overread, r # rs)
      else let bytes_sent = to_size r
        in if bytes_sent = 0 then ([], Send_error, rs)
           else case send_all buf (to_send - bytes_sent) (sent_total + bytes_sent) rs of
             (out, st, rest) \<Rightarrow> (take (nat r) (drop (unat sent_total) buf) @ out, st, rest))"

text \<open>
  The outer loop of GET: the file is positioned at \<open>pos\<close> and \<open>remaining\<close> bytes are left.
  No subtraction here wraps: \<open>fread\<close> gives at most \<open>bytes_to_read\<close> bytes.
\<close>

function get_loop :: "bytes \<Rightarrow> nat \<Rightarrow> nat \<Rightarrow> int list \<Rightarrow> bytes \<times> srv_status" where
  "get_loop contents pos remaining ws =
     (if remaining = 0 then ([], Returned)
      else let bytes_to_read = (if FTP_BUFFER_SIZE < remaining then FTP_BUFFER_SIZE else remaining);
               data = seg pos bytes_to_read contents
        in if data = [] then ([], Returned)
           else case send_all (zeroed FTP_BUFFER_SIZE data) (word_of_nat (length data)) 0 ws of
             (out, Sent, ws') \<Rightarrow>
               (case get_loop contents (pos + length data) (remaining - length data) ws' of
                  (out', st) \<Rightarrow> (out @ out', st))
           | (out, Send_error, ws') \<Rightarrow> (out, Returned)
           | (out, Send_blocked, ws') \<Rightarrow> (out, Blocked)
           | (out, Send_overread, ws') \<Rightarrow> (out, Overread))"
  by pat_completeness auto
termination
  by (relation "measure (\<lambda>(contents, pos, remaining, ws). remaining)") auto

declare get_loop.simps [simp del]

text \<open>A reply that is written with a single call: what the kernel accepted of it.\<close>

definition write_once :: "string \<Rightarrow> int list \<Rightarrow> bytes \<times> srv_status" where
  "write_once reply ws = (case ws of [] \<Rightarrow> ([], Blocked) | r # _ \<Rightarrow> (take (nat r) reply, Returned))"

definition file_size_of :: "bytes \<Rightarrow> size_t" where
  "file_size_of contents = word_of_nat (length contents)"

definition bad_range :: "size_t \<Rightarrow> size_t \<Rightarrow> size_t \<Rightarrow> bool" where
  "bad_range off sz fsz \<longleftrightarrow> fsz \<le> off \<or> fsz < off + sz"

definition serve_get :: "bytes \<Rightarrow> size_t \<Rightarrow> size_t \<Rightarrow> int list \<Rightarrow> bytes \<times> srv_status" where
  "serve_get contents off sz ws =
     (if bad_range off sz (file_size_of contents) then ([], Exited)
      else get_loop contents (unat off) (unat sz) ws)"

definition serve_check :: "bytes \<Rightarrow> int list \<Rightarrow> bytes \<times> srv_status" where
  "serve_check contents ws = write_once (ok_reply FTP_BUFFER_SIZE (file_size_of contents)) ws"

text \<open>The checks on the parsed request; the reply to a bad request is the empty buffer.\<close>

definition invalid_request :: "request \<Rightarrow> bool" where
  "invalid_request q =
     (if command q = ''CHECK'' then params q < 2
      else if command q = ''GET'' then params q < 4 \<or> chunk_size q = 0
      else True)"

text \<open>
  \<open>handle_client\<close>: \<open>rx\<close> is what \<open>recv\<close> gave, \<open>None\<close> for an error. The result of \<open>recv\<close>
  is stored in a \<open>size_t\<close>, so an error is caught by the test against \<open>BUFFER_SIZE\<close>.
\<close>

definition handle_client :: "file_system \<Rightarrow> request \<Rightarrow> bytes option \<Rightarrow> int list \<Rightarrow> bytes \<times> srv_status" where
  "handle_client fs junk rx ws =
     (let bytes_read = to_size (case rx of None \<Rightarrow> - 1 | Some d \<Rightarrow> int (length d))
      in if bytes_read = 0 \<or> of_nat FTP_BUFFER_SIZE \<le> bytes_read then ([], Returned)
         else let q = scan_request junk (cstr (the rx))
           in if invalid_request q then write_once [] ws
              else case fs (filename q) of
                None \<Rightarrow> write_once not_found_reply ws
              | Some contents \<Rightarrow>
                  if command q = ''CHECK'' then serve_check contents ws
                  else serve_get contents (offset q) (chunk_size q) ws)"

text \<open>
  \<open>main\<close>: the start-up calls in order, each with its result, then the accept loop over
  a sequence of connections. A failed \<open>accept\<close> is skipped; an \<open>exit\<close> in a handler ends
  the process. \<open>None\<close> as the second component: still serving.
\<close>

datatype startup = Start_failed | Listening

definition server_startup :: "int \<Rightarrow> int \<Rightarrow> int \<Rightarrow> int \<Rightarrow> startup" where
  "server_startup argc sock bound listening =
     (if argc \<noteq> 2 then Start_failed
      else if sock = - 1 then Start_failed
      else if bound = - 1 then Start_failed
      else if listening = - 1 then Start_failed
      else Listening)"

datatype connection = Accept_failed | Conn request "bytes option" "int list"

fun accept_loop :: "file_system \<Rightarrow> connection list \<Rightarrow> bytes list \<times> srv_status option" where
  "accept_loop fs [] = ([], None)"
| "accept_loop fs (Accept_failed # cs) = accept_loop fs cs"
| "accept_loop fs (Conn junk rx ws # cs) =
     (case handle_client fs junk rx ws of
        (out, Returned) \<Rightarrow> (case accept_loop fs cs of (outs, st) \<Rightarrow> (out # outs, st))
      | (out, st) \<Rightarrow> ([out], Some st))"

section \<open>The send loops\<close>

text \<open>
  The contract of \<open>write\<close> when it does not fail: a call for \<open>n > 0\<close> bytes returns between
  1 and \<open>n\<close>. \<open>write_ok n ws\<close> gives the results left after \<open>n\<close> bytes have been accepted.
\<close>

fun write_ok :: "nat \<Rightarrow> int list \<Rightarrow> int list option" where
  "write_ok n [] = (if n = 0 then Some [] else None)"
| "write_ok n (r # rs) =
     (if n = 0 then Some (r # rs)
      else if 1 \<le> r \<and> nat r \<le> n then write_ok (n - nat r) rs else None)"

lemma send_all_done:
  assumes "write_ok (unat to_send) ws = Some rest" and "unat sent_total + unat to_send \<le> length buf"
    and "length buf < 2 ^ 63"
  shows "send_all buf to_send sent_total ws = (seg (unat sent_total) (unat to_send) buf, Sent, rest)"
  using assms
proof (induction buf to_send sent_total ws rule: send_all.induct)
  case (1 buf to_send sent_total)
  then show ?case by (auto simp: unat_eq_0 split: if_splits)
next
  case (2 buf to_send sent_total r rs)
  show ?case
  proof (cases "to_send = 0")
    case True
    with 2 show ?thesis by auto
  next
    case False
    then have pos: "0 < unat to_send" by (simp add: unat_gt_0)
    from 2(2) pos have r: "1 \<le> r" "nat r \<le> unat to_send"
      and rest: "write_ok (unat to_send - nat r) rs = Some rest"
      by (auto split: if_splits)
    have u: "unat (to_size r) = nat r"
      using r unat_size_bound [of to_send] by (intro unat_to_size) auto
    have nz: "to_size r \<noteq> 0" using u r(1) by auto
    have sub: "unat (to_send - to_size r) = unat to_send - nat r"
      using r u by (simp add: unat_sub_size word_le_nat_alt)
    have "unat sent_total + nat r < 2 ^ 64" using 2(3,4) r(2) by simp
    then have add: "unat (sent_total + to_size r) = unat sent_total + nat r"
      by (simp add: unat_add_size u)
    have "send_all buf (to_send - to_size r) (sent_total + to_size r) rs =
      (seg (unat sent_total + nat r) (unat to_send - nat r) buf, Sent, rest)"
      using "2.IH" [OF False _ refl nz] rest sub add 2(3,4) r(2) by simp
    moreover have "take (nat r) (drop (unat sent_total) buf) @ seg (unat sent_total + nat r) (unat to_send - nat r) buf =
      seg (unat sent_total) (unat to_send) buf"
      using seg_append [of "unat sent_total" "nat r" "unat to_send - nat r" buf] r(2) by (simp add: seg_def)
    ultimately show ?thesis
      using False nz 2(3) by (simp add: Let_def)
  qed
qed

lemma send_all_overread:
  "to_send \<noteq> 0 \<Longrightarrow> length buf < unat sent_total + unat to_send \<Longrightarrow>
   send_all buf to_send sent_total ws = ([], Send_overread, ws)"
  by (cases ws) simp_all

lemma send_all_step:
  "to_send \<noteq> 0 \<Longrightarrow> unat sent_total + unat to_send \<le> length buf \<Longrightarrow> to_size r \<noteq> 0 \<Longrightarrow>
   send_all buf to_send sent_total (r # rs) =
     (case send_all buf (to_send - to_size r) (sent_total + to_size r) rs of
        (out, st, rest) \<Rightarrow> (take (nat r) (drop (unat sent_total) buf) @ out, st, rest))"
  by (simp add: Let_def)

text \<open>
  The sizes of the blocks GET reads for \<open>n\<close> bytes of the file, and a run of \<open>write\<close>
  results that accepts block after block.
\<close>

function block_sizes :: "nat \<Rightarrow> nat list" where
  "block_sizes n = (if n = 0 then [] else min FTP_BUFFER_SIZE n # block_sizes (n - FTP_BUFFER_SIZE))"
  by pat_completeness auto
termination
  by (relation "measure id") (auto simp: FTP_BUFFER_SIZE_def)

declare block_sizes.simps [simp del]

fun blocks_ok :: "nat list \<Rightarrow> int list \<Rightarrow> bool" where
  "blocks_ok [] ws = True"
| "blocks_ok (b # bs) ws = (case write_ok b ws of None \<Rightarrow> False | Some ws' \<Rightarrow> blocks_ok bs ws')"

lemma send_block:
  assumes "write_ok (length data) ws = Some ws'" and "length data \<le> FTP_BUFFER_SIZE"
  shows "send_all (zeroed FTP_BUFFER_SIZE data) (word_of_nat (length data)) 0 ws = (data, Sent, ws')"
proof -
  have u: "unat (word_of_nat (length data) :: size_t) = length data"
    using assms(2) by (intro unat_of_nat_size) (simp add: FTP_BUFFER_SIZE_def)
  have "send_all (zeroed FTP_BUFFER_SIZE data) (word_of_nat (length data)) 0 ws =
    (seg 0 (length data) (zeroed FTP_BUFFER_SIZE data), Sent, ws')"
    using send_all_done [of "word_of_nat (length data)" ws ws' 0 "zeroed FTP_BUFFER_SIZE data"] assms
    by (simp add: u length_zeroed) (simp add: FTP_BUFFER_SIZE_def)
  then show ?thesis by (simp add: seg_def zeroed_def)
qed

lemma get_loop_sends:
  assumes "blocks_ok (block_sizes (min n (length contents - pos))) ws"
  shows "get_loop contents pos n ws = (seg pos n contents, Returned)"
  using assms
proof (induction contents pos n ws rule: get_loop.induct)
  case (1 contents pos n ws)
  let ?b = "if FTP_BUFFER_SIZE < n then FTP_BUFFER_SIZE else n"
  let ?d = "seg pos ?b contents"
  let ?m = "min n (length contents - pos)"
  show ?case
  proof (cases "n = 0 \<or> ?d = []")
    case True
    moreover have "seg pos n contents = []"
      using True by (auto simp: seg_eq_Nil FTP_BUFFER_SIZE_def split: if_splits)
    ultimately show ?thesis
      by (auto simp: get_loop.simps [of contents pos n ws] Let_def)
  next
    case False
    have len: "length ?d = min FTP_BUFFER_SIZE ?m"
      by (auto simp: length_seg_min)
    have m: "?m \<noteq> 0" using False by (auto simp: seg_eq_Nil split: if_splits)
    have bs: "block_sizes ?m = length ?d # block_sizes (?m - length ?d)"
    proof -
      have "block_sizes ?m = min FTP_BUFFER_SIZE ?m # block_sizes (?m - FTP_BUFFER_SIZE)"
        using m by (simp only: block_sizes.simps [of ?m] if_False)
      moreover have "?m - min FTP_BUFFER_SIZE ?m = ?m - FTP_BUFFER_SIZE" by simp
      ultimately show ?thesis by (simp only: len)
    qed
    from "1.prems" obtain ws' where ws: "write_ok (length ?d) ws = Some ws'"
      and rest: "blocks_ok (block_sizes (?m - length ?d)) ws'"
      unfolding bs by (auto split: option.splits)
    have snd: "send_all (zeroed FTP_BUFFER_SIZE ?d) (word_of_nat (length ?d)) 0 ws = (?d, Sent, ws')"
      using len by (intro send_block [OF ws]) simp
    have "min (n - length ?d) (length contents - (pos + length ?d)) = ?m - length ?d"
      by (simp add: min_diff)
    with rest have IH: "get_loop contents (pos + length ?d) (n - length ?d) ws' =
      (seg (pos + length ?d) (n - length ?d) contents, Returned)"
      using "1.IH" [OF _ refl refl _ snd [symmetric] refl refl] False by simp
    have "?d @ seg (pos + length ?d) (n - length ?d) contents = seg pos n contents"
      by (rule seg_read) simp
    with IH snd False show ?thesis
      by (simp add: get_loop.simps [of contents pos n ws] Let_def)
  qed
qed

section \<open>Requests\<close>

lemma to_size_length_zero: "length d < FTP_BUFFER_SIZE \<Longrightarrow> to_size (int (length d)) = 0 \<longleftrightarrow> d = []"
  using unat_to_size [of "int (length d)"] by (auto simp: FTP_BUFFER_SIZE_def unat_eq_0 [symmetric])

lemma to_size_length_less: "length d < FTP_BUFFER_SIZE \<Longrightarrow> \<not> of_nat FTP_BUFFER_SIZE \<le> to_size (int (length d))"
  using unat_to_size [of "int (length d)"] by (simp add: FTP_BUFFER_SIZE_def word_le_nat_alt)

text \<open>A received request reaches the parser, with the socket's bytes as a C string.\<close>

lemma handle_client_received:
  assumes "d \<noteq> []" and "length d < FTP_BUFFER_SIZE"
  shows "handle_client fs junk (Some d) ws =
    (let q = scan_request junk (cstr d)
     in if invalid_request q then write_once [] ws
        else case fs (filename q) of
          None \<Rightarrow> write_once not_found_reply ws
        | Some contents \<Rightarrow>
            if command q = ''CHECK'' then serve_check contents ws
            else serve_get contents (offset q) (chunk_size q) ws)"
  using to_size_length_zero [OF assms(2)] to_size_length_less [OF assms(2)] assms(1)
  by (simp add: handle_client_def Let_def)

lemma handle_client_no_data:
  "handle_client fs junk None ws = ([], Returned)" "handle_client fs junk (Some []) ws = ([], Returned)"
  by (simp_all add: handle_client_def to_size_def FTP_BUFFER_SIZE_def Let_def)

lemma bad_range_iff:
  assumes "unat off + unat sz < 2 ^ 64"
  shows "bad_range off sz fsz \<longleftrightarrow> unat fsz \<le> unat off \<or> unat fsz < unat off + unat sz"
  using assms by (simp add: bad_range_def word_le_nat_alt word_less_nat_alt unat_add_size_no_wrap)

lemma unat_file_size: "length contents < 2 ^ 63 \<Longrightarrow> unat (file_size_of contents) = length contents"
  unfolding file_size_of_def by (rule unat_of_nat_size) simp

lemma ftp_buffer_302: "302 \<le> FTP_BUFFER_SIZE"
  by (simp add: FTP_BUFFER_SIZE_def)

lemmas get_received = get_request_received [OF _ ftp_buffer_302]
lemmas check_received = check_request_received [OF _ ftp_buffer_302]

lemma handle_get:
  assumes "plain_name f" and "fs f = Some contents" and "sz \<noteq> 0"
  shows "handle_client fs junk (Some (get_request FTP_BUFFER_SIZE f off sz)) ws = serve_get contents off sz ws"
  using get_received [OF assms(1)] assms
  by (simp add: handle_client_received scan_get_request ftp_buffer_302 invalid_request_def)

lemma get_loop_not_Exited: "snd (get_loop contents pos n ws) \<noteq> Exited"
proof (induction contents pos n ws rule: get_loop.induct)
  case (1 contents pos n ws)
  let ?d = "seg pos (if FTP_BUFFER_SIZE < n then FTP_BUFFER_SIZE else n) contents"
  obtain out r ws' where snd: "send_all (zeroed FTP_BUFFER_SIZE ?d) (word_of_nat (length ?d)) 0 ws = (out, r, ws')"
    by (metis prod_cases3)
  have "n \<noteq> 0 \<Longrightarrow> ?d \<noteq> [] \<Longrightarrow> r = Sent \<Longrightarrow>
    snd (get_loop contents (pos + length ?d) (n - length ?d) ws') \<noteq> Exited"
    using "1.IH" [OF _ refl refl _ snd [symmetric] refl] by blast
  with snd show ?case
    by (subst get_loop.simps)
      (cases "FTP_BUFFER_SIZE < n"; simp add: Let_def case_prod_beta split: send_result.splits)
qed

lemma write_once_not_Exited: "snd (write_once s ws) \<noteq> Exited"
  by (simp add: write_once_def split: list.splits)

lemma serve_get_Exited: "snd (serve_get contents off sz ws) = Exited \<longleftrightarrow> bad_range off sz (file_size_of contents)"
  by (simp add: serve_get_def get_loop_not_Exited)

lemma handle_get_chunk:
  assumes "plain_name f" and "fs f = Some contents" and "length contents < 2 ^ 63"
    and "0 < unat sz" and "unat off + unat sz \<le> length contents"
    and "blocks_ok (block_sizes (unat sz)) ws"
  shows "handle_client fs junk (Some (get_request FTP_BUFFER_SIZE f off sz)) ws =
    (seg (unat off) (unat sz) contents, Returned)"
proof -
  have "unat off + unat sz < 2 ^ 64" using assms(3,5) by simp
  then have "\<not> bad_range off sz (file_size_of contents)"
    using assms(3-5) by (auto simp: bad_range_iff unat_file_size)
  moreover have "get_loop contents (unat off) (unat sz) ws = (seg (unat off) (unat sz) contents, Returned)"
    using assms(5,6) by (intro get_loop_sends) (simp add: min_absorb1 le_diff_conv2)
  moreover have "sz \<noteq> 0" using assms(4) by auto
  ultimately show ?thesis
    using assms(1,2) by (simp add: handle_get serve_get_def)
qed

lemma ftp_ok_reply_text: "ok_reply FTP_BUFFER_SIZE fsz = ''OK '' @ show_size fsz"
  unfolding ok_reply_def using length_show_size [of fsz]
  by (subst snprintf_id) (simp_all add: FTP_BUFFER_SIZE_def)

lemma handle_check_reply:
  assumes "plain_name f" and "fs f = Some contents" and "23 \<le> r"
  shows "handle_client fs junk (Some (check_request FTP_BUFFER_SIZE f)) (r # ws) =
      (ok_reply FTP_BUFFER_SIZE (file_size_of contents), Returned)"
    and "scan_ok old (ok_reply FTP_BUFFER_SIZE (file_size_of contents)) = file_size_of contents"
proof -
  let ?reply = "ok_reply FTP_BUFFER_SIZE (file_size_of contents)"
  have "length ?reply \<le> nat r"
    unfolding ftp_ok_reply_text using length_show_size [of "file_size_of contents"] assms(3) by simp
  then show "handle_client fs junk (Some (check_request FTP_BUFFER_SIZE f)) (r # ws) = (?reply, Returned)"
    using check_received [OF assms(1)] assms
    by (simp add: handle_client_received scan_check_request ftp_buffer_302 invalid_request_def
        serve_check_def write_once_def)
  show "scan_ok old ?reply = file_size_of contents"
    by (rule scan_ok_reply) (simp add: FTP_BUFFER_SIZE_def)
qed

section \<open>Properties\<close>

text \<open>
  C7. a GET request for a chunk inside a file, as the client prints it, makes the server
  send exactly the bytes of that chunk and close the connection, however the kernel
  splits the \<open>write\<close> calls.
\<close>

theorem ftp_get_sends_chunk:
  assumes "plain_name f" and "fs f = Some contents" and "length contents < 2 ^ 63"
    and "0 < unat sz" and "unat off + unat sz \<le> length contents"
    and "blocks_ok (block_sizes (unat sz)) ws"
  shows "handle_client fs junk (Some (get_request FTP_BUFFER_SIZE f off sz)) ws =
    (seg (unat off) (unat sz) contents, Returned)"
  using assms by (rule handle_get_chunk)

theorem ftp_get_sends_chunk_witness:
  "handle_client [''a.txt'' \<mapsto> ''hello world''] zero_request (Some (get_request FTP_BUFFER_SIZE ''a.txt'' 6 5)) [2, 3] =
     (''world'', Returned)"
proof -
  have b: "blocks_ok (block_sizes (unat (5 :: size_t))) [2, 3]"
    by (simp add: block_sizes.simps FTP_BUFFER_SIZE_def)
  have n: "plain_name ''a.txt''" by (simp add: plain_name_def is_word_def isspace_def NUL_def)
  show ?thesis
    using ftp_get_sends_chunk [of "''a.txt''" "[''a.txt'' \<mapsto> ''hello world'']" "''hello world''" 5 6 "[2, 3]", OF n _ _ _ _ b]
    by (simp add: seg_def)
qed

text \<open>
  C18. The reply to a CHECK is read back by the client's \<open>sscanf\<close> as the size of the file when
  the file exists, whatever the client's variable held before. When it does not exist the
  reply leaves the variable, which the client never initialises, as it was.
\<close>

theorem ftp_check_reports_size:
  assumes "plain_name f" and "23 \<le> r"
  shows "\<exists>reply. handle_client fs junk (Some (check_request FTP_BUFFER_SIZE f)) (r # ws) = (reply, Returned) \<and>
    scan_ok old (cstr (zeroed FTP_BUFFER_SIZE reply)) = (case fs f of Some contents \<Rightarrow> file_size_of contents | None \<Rightarrow> old)"
proof (cases "fs f")
  case None
  have "length not_found_reply \<le> nat r" "NUL \<notin> set not_found_reply" using assms(2) by (simp_all add: not_found_reply_def NUL_def)
  then show ?thesis
    using None check_received [OF assms(1)] assms scan_ok_not_found [of old]
    by (simp add: handle_client_received scan_check_request ftp_buffer_302 invalid_request_def write_once_def)
next
  case (Some contents)
  have "NUL \<notin> set (ok_reply FTP_BUFFER_SIZE (file_size_of contents))" by (simp add: ftp_ok_reply_text)
  then show ?thesis
    using Some handle_check_reply [of f fs, OF assms(1) Some assms(2)] by simp
qed

theorem ftp_check_reports_size_witness:
  "(\<exists>reply. handle_client [''a.txt'' \<mapsto> ''hello''] zero_request (Some (check_request FTP_BUFFER_SIZE ''a.txt'')) [23] =
      (reply, Returned) \<and> scan_ok 77 (cstr (zeroed FTP_BUFFER_SIZE reply)) = 5) \<and>
   (\<exists>reply. handle_client (\<lambda>f. None) zero_request (Some (check_request FTP_BUFFER_SIZE ''a.txt'')) [23] =
      (reply, Returned) \<and> scan_ok 77 (cstr (zeroed FTP_BUFFER_SIZE reply)) = 77)"
proof -
  have n: "plain_name ''a.txt''" by (simp add: plain_name_def is_word_def isspace_def NUL_def)
  show ?thesis
    using ftp_check_reports_size [OF n, of 23 "[''a.txt'' \<mapsto> ''hello'']" zero_request "[]" 77]
      ftp_check_reports_size [OF n, of 23 "\<lambda>f. None" zero_request "[]" 77]
    by (simp add: file_size_of_def)
qed

text \<open>
  C20. the server process exits exactly when it has received a well-formed GET for a file
  that exists whose range check fails; every other request ends with the connection
  closed and the server running, or with a \<open>write\<close> that has not returned or reads
  outside the buffer.
\<close>

theorem ftp_exit_iff:
  assumes "d \<noteq> []" and "length d < FTP_BUFFER_SIZE" and "q = scan_request junk (cstr d)"
  shows "snd (handle_client fs junk (Some d) ws) = Exited \<longleftrightarrow>
    command q = ''GET'' \<and> 4 \<le> params q \<and> chunk_size q \<noteq> 0 \<and>
    (\<exists>contents. fs (filename q) = Some contents \<and>
       bad_range (offset q) (chunk_size q) (file_size_of contents))"
  unfolding handle_client_received [OF assms(1,2)] assms(3) Let_def
  by (auto simp: invalid_request_def write_once_not_Exited serve_get_Exited serve_check_def
      split: option.splits)

theorem ftp_exit_iff_witness:
  "snd (handle_client [''a'' \<mapsto> ''hello''] zero_request (Some (get_request FTP_BUFFER_SIZE ''a'' 4 2)) []) = Exited"
proof -
  have n: "plain_name ''a''" by (simp add: plain_name_def is_word_def isspace_def NUL_def)
  have q: "scan_request zero_request (cstr (get_request FTP_BUFFER_SIZE ''a'' 4 2)) =
    \<lparr>params = 4, command = ''GET'', filename = ''a'', offset = 4, chunk_size = 2\<rparr>"
    unfolding get_received(1) [OF n] by (rule scan_get_request [OF n ftp_buffer_302])
  show ?thesis
    using ftp_exit_iff [OF get_received(2) [OF n, of 4 2] get_received(3) [OF n, of 4 2] refl, of "[''a'' \<mapsto> ''hello'']" zero_request "[]"]
    unfolding q by (simp add: bad_range_def file_size_of_def)
qed

text \<open>
  C40. One GET with an offset at or past the end of an existing file ends the service: the
  accept loop stops there, whatever connections follow.
\<close>

theorem ftp_bad_offset_stops_service:
  assumes "plain_name f" and "fs f = Some contents" and "length contents < 2 ^ 63"
    and "length contents \<le> unat off" and "sz \<noteq> 0"
  shows "accept_loop fs (Conn junk (Some (get_request FTP_BUFFER_SIZE f off sz)) ws # later) =
    ([[]], Some Exited)"
proof -
  have "file_size_of contents \<le> off" using assms(3,4) by (simp add: word_le_nat_alt unat_file_size)
  then show ?thesis
    using assms(1,2,5) by (simp add: handle_get serve_get_def bad_range_def)
qed

theorem ftp_bad_offset_stops_service_witness:
  "accept_loop [''a'' \<mapsto> ''hello''] [Conn zero_request (Some (get_request FTP_BUFFER_SIZE ''a'' 5 1)) [],
      Conn zero_request (Some (get_request FTP_BUFFER_SIZE ''a'' 0 5)) [5]] = ([[]], Some Exited)"
proof -
  have n: "plain_name ''a''" by (simp add: plain_name_def is_word_def isspace_def NUL_def)
  show ?thesis
    by (rule ftp_bad_offset_stops_service [OF n, of _ "''hello''"]) simp_all
qed

text \<open>
  C38. the range check adds \<open>offset\<close> and \<open>chunk_size\<close> modulo \<open>2^64\<close>. A chunk size of
  \<open>2^64 - offset\<close> passes it, and the server sends the file from the offset to its end.
\<close>

theorem ftp_range_check_wraps:
  assumes "plain_name f" and "fs f = Some contents" and "length contents < 2 ^ 63"
    and "0 < unat off" and "unat off < length contents"
    and "blocks_ok (block_sizes (length contents - unat off)) ws"
  shows "handle_client fs junk (Some (get_request FTP_BUFFER_SIZE f off (- off))) ws =
    (drop (unat off) contents, Returned)"
proof -
  have nz: "- off \<noteq> 0" using assms(4) by auto
  have "\<not> bad_range off (- off) (file_size_of contents)"
    using assms(3,5) by (simp add: bad_range_def word_le_nat_alt unat_file_size)
  moreover have big: "length contents - unat off \<le> unat (- off)"
    using unat_neg_size [of off] assms(3,4) by simp
  then have "get_loop contents (unat off) (unat (- off)) ws = (seg (unat off) (unat (- off)) contents, Returned)"
    using assms(6) by (intro get_loop_sends) (simp add: min_absorb2)
  moreover have "seg (unat off) (unat (- off)) contents = drop (unat off) contents"
    using big by (simp add: seg_def)
  ultimately show ?thesis
    using handle_get [of f fs, OF assms(1,2) nz, of junk off ws] by (simp add: serve_get_def)
qed

theorem ftp_range_check_wraps_witness:
  "handle_client [''a'' \<mapsto> ''hello''] zero_request (Some (get_request FTP_BUFFER_SIZE ''a'' 2 (- 2))) [3] = (''llo'', Returned)"
proof -
  have n: "plain_name ''a''" by (simp add: plain_name_def is_word_def isspace_def NUL_def)
  have b: "blocks_ok (block_sizes (length ''hello'' - unat (2 :: size_t))) [3]"
    by (simp add: block_sizes.simps FTP_BUFFER_SIZE_def)
  show ?thesis
    using ftp_range_check_wraps [OF n _ _ _ _ b, of "[''a'' \<mapsto> ''hello'']" zero_request] by simp
qed

text \<open>
  a \<open>write\<close> that fails (\<open>-1\<close>) is not seen as an error. After the first call of a block
  it makes the next one read outside the buffer; after \<open>k\<close> accepted bytes it moves the
  position back by one, so the byte before it is sent twice.
\<close>

theorem ftp_write_error_unnoticed:
  assumes "0 < k" and "k < n" and "n \<le> length buf" and "length buf < 2 ^ 31"
  shows "send_all buf (word_of_nat n) 0 (- 1 # rs) = ([], Send_overread, rs) \<and>
    send_all buf (word_of_nat n) 0 [int k, - 1, int (n - k + 1)] =
      (take k buf @ seg (k - 1) (n - k + 1) buf, Sent, [])"
proof -
  have u: "unat (word_of_nat m :: size_t) = m" if "m \<le> n" for m
    using that assms by (intro unat_of_nat_size) simp
  have nz: "(word_of_nat m :: size_t) \<noteq> 0" if "0 < m" "m \<le> n" for m
    using u [OF that(2)] that(1) by auto
  have m1: "2 ^ 64 - 1 \<le> unat (- 1 :: size_t)" using unat_neg_size [of 1] by simp
  have over: "send_all buf (word_of_nat n - - 1) (0 + - 1) rs = ([], Send_overread, rs)"
  proof (rule send_all_overread)
    have "unat (word_of_nat n - - 1 :: size_t) = n + 1"
      using unat_of_nat_size [of "n + 1"] assms by (simp add: add.commute)
    then show "word_of_nat n - - 1 \<noteq> (0 :: size_t)" by auto
    show "length buf < unat (0 + - 1 :: size_t) + unat (word_of_nat n - - 1 :: size_t)"
      using m1 assms(4) by simp
  qed
  obtain m j where m: "m = n - k + 1" and j: "j = n - k" by blast
  have last: "send_all buf (word_of_nat m) (word_of_nat (k - 1)) [int m] = (seg (k - 1) m buf, Sent, [])"
    using send_all_done [of "word_of_nat m" "[int m]" "[]" "word_of_nat (k - 1)" buf]
      u [of m] u [of "k - 1"] assms by (simp add: m)
  have one: "to_size (- 1) = - 1" and k: "to_size (int k) = word_of_nat k"
    by (simp_all add: to_size_def)
  have w: "word_of_nat j - - 1 = (word_of_nat m :: size_t)"
    "word_of_nat k + - 1 = (word_of_nat (k - 1) :: size_t)"
    "word_of_nat n - word_of_nat k = (word_of_nat j :: size_t)"
    using assms by (simp_all add: of_nat_diff m j)
  have mid: "send_all buf (word_of_nat j) (word_of_nat k) [- 1, int m] = (seg (k - 1) m buf, Sent, [])"
    using assms nz [of j] u [of j] u [of k] send_all_step [of "word_of_nat j" "word_of_nat k" buf "- 1" "[int m]"]
    unfolding one w last by (simp add: j)
  have first: "send_all buf (word_of_nat n) 0 [int k, - 1, int m] = (take k buf @ seg (k - 1) m buf, Sent, [])"
    using assms nz [of n] nz [of k] u [of n] send_all_step [of "word_of_nat n" 0 buf "int k" "[- 1, int m]"]
    unfolding k w mid add_0 by simp
  have "send_all buf (word_of_nat n) 0 (- 1 # rs) = ([], Send_overread, rs)"
    using assms nz [of n] u [of n] send_all_step [of "word_of_nat n" 0 buf "- 1" rs]
    unfolding one over by simp
  with first show ?thesis unfolding m by simp
qed

theorem ftp_write_error_unnoticed_witness:
  "send_all ''abcd'' 3 0 [- 1] = ([], Send_overread, []) \<and>
   send_all ''abcd'' 3 0 [2, - 1, 2] = (''abbc'', Sent, [])"
  using ftp_write_error_unnoticed [of 2 3 "''abcd''" "[]"] by (simp add: seg_def)

end
