(* ===== verification/ServerList.thy ===== *)
theory ServerList
  imports Requests
begin

text \<open>
  What the two download clients, \<open>ftp/client.c\<close> and \<open>tftp/client.c\<close>, have in common up to
  their first socket: the arguments, the file with the list of servers, and the distribution
  of the tasks over the servers.
\<close>

section \<open>The server list\<close>

datatype info_error = Name_overflow | Too_many_servers

definition fmt_server :: "directive list" where
  "fmt_server = [Conv_s None, WS, Conv_d]"

text \<open>
  One entry per \<open>fscanf\<close> that does not return \<open>EOF\<close>; the port is \<open>None\<close> when the
  conversion \<open>%d\<close> failed and \<open>ports[server_count]\<close> keeps its indeterminate value.
\<close>

lemma take_word_shorter: "s \<noteq> [] \<Longrightarrow> \<not> isspace (hd s) \<Longrightarrow> take_word None s = (t, r) \<Longrightarrow> length r < length s"
  by (cases s) (auto simp: take_word_def Let_def)

lemma scan_number_shorter: "scan_number s = Some (neg, n, r) \<Longrightarrow> length r < length s"
proof -
  have d: "scan_digits u = Some (k, r) \<Longrightarrow> length r < length u" for u k
    by (cases u) (auto simp: scan_digits_def Let_def length_dropWhile_le le_imp_less_Suc split: if_splits)
  assume "scan_number s = Some (neg, n, r)"
  then show ?thesis
    by (auto simp: scan_number_def dest!: d split: list.splits if_splits)
qed

lemma after_sign_shorter: "length (after_sign s) \<le> length s"
  by (auto simp: after_sign_def split: list.splits)

lemma scan_server_shorter:
  assumes "scan fmt_server s = (v # vs, e, r)"
  shows "length r < length s"
proof -
  let ?s = "dropWhile isspace s"
  have ne: "?s \<noteq> []" using assms by (auto simp: fmt_server_def Let_def split: if_splits)
  obtain t q where w: "take_word None ?s = (t, q)" by fastforce
  have "length q < length ?s"
    using take_word_shorter [OF ne _ w] hd_dropWhile [of isspace s] ne by blast
  moreover have "length ?s \<le> length s" by (rule length_dropWhile_le)
  moreover have "length r \<le> length q"
  proof -
    have "scan fmt_server s = (case scan [WS, Conv_d] q of (us, e, r) \<Rightarrow> (SStr t # us, e, r))"
      using ne w by (simp only: fmt_server_def scan.simps(4) Let_def if_False split_conv)
    with assms have "snd (snd (scan [WS, Conv_d] q)) = r" by (auto split: prod.splits)
    then show ?thesis
      using length_dropWhile_le [of isspace q] after_sign_shorter [of "dropWhile isspace q"]
      by (auto simp: Let_def dest!: scan_number_shorter split: if_splits option.splits prod.splits)
  qed
  ultimately show ?thesis by linarith
qed

function scan_servers :: "string \<Rightarrow> (string \<times> int option) list" where
  "scan_servers s =
     (case scan fmt_server s of
        ([], e, r) \<Rightarrow> []
      | (v # vs, e, r) \<Rightarrow>
          ((case v of SStr t \<Rightarrow> t | _ \<Rightarrow> []), (case vs of SInt p # _ \<Rightarrow> Some p | _ \<Rightarrow> None)) # scan_servers r)"
  by pat_completeness auto
termination
  by (relation "measure length") (auto dest: scan_server_shorter [OF sym])

declare scan_servers.simps [simp del]

text \<open>\<open>servers\<close> has ten rows of 256 characters; an eleventh row or a longer name overflows.\<close>

definition parse_server_info :: "string \<Rightarrow> info_error + (string \<times> int option) list" where
  "parse_server_info text0 =
     (let es = scan_servers text0
      in if \<exists>e \<in> set (take 10 es). 256 \<le> length (fst e) then Inl Name_overflow
         else if 10 < length es then Inl Too_many_servers
         else Inr es)"

section \<open>The arguments\<close>

text \<open>
  \<open>No_server\<close> marks an empty list, for which \<open>main\<close> reads the indeterminate first row and
  later divides by \<open>server_count\<close>; the model stops there. \<open>files\<close> is the file system of the
  client, \<open>args\<close> is \<open>argv[1..]\<close>, and \<open>junk_port\<close> stands for the entries of \<open>ports\<close> that
  \<open>fscanf\<close> did not assign.
\<close>

datatype start_error = Usage | No_server_list | List_overrun info_error | No_server

definition client_start ::
  "(string \<Rightarrow> string option) \<Rightarrow> int \<Rightarrow> string list \<Rightarrow> start_error + (string \<times> int) list \<times> int \<times> string" where
  "client_start files junk_port args =
     (case args of
        [server_info_file, num, f] \<Rightarrow>
          (case files server_info_file of
             None \<Rightarrow> Inl No_server_list
           | Some t \<Rightarrow>
               (case parse_server_info t of
                  Inl e \<Rightarrow> Inl (List_overrun e)
                | Inr es \<Rightarrow>
                    if es = [] then Inl No_server
                    else Inr (map (\<lambda>(h, p). (h, case p of None \<Rightarrow> junk_port | Some q \<Rightarrow> q)) es, atoi num, f)))
      | _ \<Rightarrow> Inl Usage)"

section \<open>Tasks\<close>

record download_task =
  dt_server_ip :: string
  dt_server_port :: int
  dt_filename :: string
  dt_offset :: size_t
  dt_size :: size_t

text \<open>Task \<open>i\<close> goes to server \<open>i % server_count\<close>.\<close>

definition download_tasks :: "(string \<times> int) list \<Rightarrow> string \<Rightarrow> (size_t \<times> size_t) list \<Rightarrow> download_task list" where
  "download_tasks servers f tasks =
     map (\<lambda>i. \<lparr>dt_server_ip = fst (servers ! (i mod length servers)), dt_server_port = snd (servers ! (i mod length servers)),
               dt_filename = f, dt_offset = fst (tasks ! i), dt_size = snd (tasks ! i)\<rparr>) [0..<length tasks]"

text \<open>The port that \<open>htons\<close> makes of an \<open>int\<close>.\<close>

definition wire_port :: "int \<Rightarrow> int" where
  "wire_port p = p mod 65536"

definition task_request :: "nat \<Rightarrow> download_task \<Rightarrow> string" where
  "task_request bufsize d = get_request bufsize (dt_filename d) (dt_offset d) (dt_size d)"

section \<open>Reading the server list\<close>

definition server_line :: "string \<times> nat \<Rightarrow> string" where
  "server_line e = fst e @ CHR '' '' # show_nat (snd e) @ [CHR ''\<newline>'']"

lemma scan_server_line:
  assumes "is_word h" and "p \<le> 2147483647"
  shows "scan fmt_server (server_line (h, p) @ r) = ([SStr h, SInt (int p)], False, CHR ''\<newline>'' # r)"
proof -
  have d: "scan [Conv_d] (show_nat p @ CHR ''\<newline>'' # r) = ([SInt (int p)], False, CHR ''\<newline>'' # r)"
    using assms(2) by (subst scan_d_show) simp_all
  have "scan fmt_server (h @ CHR '' '' # show_nat p @ CHR ''\<newline>'' # r) = ([SStr h, SInt (int p)], False, CHR ''\<newline>'' # r)"
    unfolding fmt_server_def
    using assms(1) by (subst scan_s_word) (simp_all only: d scan_ws_show Let_def split_conv, simp_all)
  then show ?thesis by (simp add: server_line_def)
qed

lemma scan_servers_newline: "scan_servers (CHR ''\<newline>'' # s) = scan_servers s"
proof -
  have "scan fmt_server (CHR ''\<newline>'' # s) = scan fmt_server s" by (simp add: fmt_server_def)
  then show ?thesis by (subst (1 2) scan_servers.simps) simp
qed

lemma scan_servers_lines:
  assumes "\<forall>(h, p) \<in> set es. is_word h \<and> p \<le> 2147483647"
  shows "scan_servers (concat (map server_line es)) = map (\<lambda>(h, p). (h, Some (int p))) es"
  using assms
proof (induction es)
  case Nil
  show ?case by (subst scan_servers.simps) (simp add: fmt_server_def)
next
  case (Cons e es)
  obtain h p where e: "e = (h, p)" by fastforce
  with Cons.prems have "is_word h" "p \<le> 2147483647" by auto
  note line = scan_server_line [OF this, of "concat (map server_line es)"]
  show ?case
    using Cons.IH Cons.prems unfolding e
    by (subst scan_servers.simps) (simp add: line scan_servers_newline)
qed

text \<open>
  The server list of both download clients: a file with one \<open>host port\<close> line for each
  of at most ten servers, with host names shorter than 256 characters and non-negative
  \<open>int\<close> ports, is read back as exactly these servers in order; an eleventh line overflows
  the arrays.
\<close>

lemma server_info_round_trip:
  assumes "\<forall>(h, p) \<in> set es. is_word h \<and> length h < 256 \<and> p \<le> 2147483647"
  shows "parse_server_info (concat (map server_line es)) =
    (if length es \<le> 10 then Inr (map (\<lambda>(h, p). (h, Some (int p))) es) else Inl Too_many_servers)"
proof -
  have sc: "scan_servers (concat (map server_line es)) = map (\<lambda>(h, p). (h, Some (int p))) es"
    using assms by (intro scan_servers_lines) auto
  have "\<not> (\<exists>e \<in> set (take 10 (map (\<lambda>(h, p). (h, Some (int p))) es)). 256 \<le> length (fst e))"
    using assms by (force simp: take_map dest!: in_set_takeD)
  then show ?thesis unfolding parse_server_info_def sc Let_def by simp
qed

section \<open>Starting a client\<close>

lemma client_start_lines:
  assumes "files info = Some (concat (map server_line es))" and "es \<noteq> []" and "length es \<le> 10"
    and "\<forall>(h, p) \<in> set es. is_word h \<and> length h < 256 \<and> p \<le> 2147483647" and "n \<le> 2147483647"
  shows "client_start files junk_port [info, show_nat n, f] = Inr (map (\<lambda>(h, p). (h, int p)) es, int n, f)"
  using server_info_round_trip [OF assms(4)] assms(1-3) atoi_show_nat [OF assms(5)]
  by (simp add: client_start_def case_prod_beta)

lemma length_download_tasks [simp]: "length (download_tasks servers f tasks) = length tasks"
  by (simp add: download_tasks_def)

lemma nth_download_tasks:
  assumes "i < length tasks" and "es \<noteq> []" and "es ! (i mod length es) = (h, p)"
  shows "download_tasks (map (\<lambda>(h, p). (h, int p)) es) f tasks ! i =
    \<lparr>dt_server_ip = h, dt_server_port = int p, dt_filename = f, dt_offset = fst (tasks ! i), dt_size = snd (tasks ! i)\<rparr>"
  using assms by (simp add: download_tasks_def)

lemma first_server:
  assumes "es \<noteq> []" and "hd es = (h, p)"
  shows "(h, p) \<in> set es" and "map (\<lambda>(h, p). (h, int p)) es ! 0 = (h, int p)"
  using assms by (cases es; simp)+

lemma server_of_list: "es \<noteq> [] \<Longrightarrow> es ! (i mod length es) \<in> set es"
  by (simp add: nth_mem)

lemma wire_port_small: "p \<le> 65535 \<Longrightarrow> wire_port (int p) = int p"
  by (simp add: wire_port_def)

end
