(* ===== verification/ChunkPlan.thy ===== *)
theory ChunkPlan
  imports CText
begin

text \<open>
  How \<open>main\<close> of the two download clients divides a file among its threads: the
  adjustment of \<open>num_connections\<close> (an \<open>int\<close> compared with a \<open>size_t\<close>), the chunk
  size, and the loop that computes and validates the offset and size of each task. All
  sizes are 64-bit words. The lemmas show that no product or sum of the loop wraps, that
  the validation never fails, and that the chunks tile the file.
\<close>

section \<open>Definitions\<close>

datatype plan_error = Invalid_file_size | Division_by_zero | Negative_array | Invalid_chunk nat

definition adjust_connections :: "int \<Rightarrow> size_t \<Rightarrow> int" where
  "adjust_connections num fsz = (if fsz < to_size num then to_int (uint fsz) else num)"

definition chunk_size_for :: "int \<Rightarrow> size_t \<Rightarrow> size_t" where
  "chunk_size_for num fsz = (let c = fsz div to_size num in if c < 1 then 1 else c)"

definition task_offset :: "size_t \<Rightarrow> nat \<Rightarrow> size_t" where
  "task_offset c i = to_size (int i) * c"

definition task_size :: "int \<Rightarrow> size_t \<Rightarrow> size_t \<Rightarrow> nat \<Rightarrow> size_t" where
  "task_size num fsz c i = (if int i = num - 1 then fsz - c * to_size (int i) else c)"

fun assign_tasks :: "int \<Rightarrow> size_t \<Rightarrow> size_t \<Rightarrow> nat list \<Rightarrow> plan_error + (size_t \<times> size_t) list" where
  "assign_tasks num fsz c [] = Inr []"
| "assign_tasks num fsz c (i # is) =
     (let off = task_offset c i; sz = task_size num fsz c i
      in if sz = 0 \<or> fsz < off + sz then Inl (Invalid_chunk i)
         else case assign_tasks num fsz c is of Inl e \<Rightarrow> Inl e | Inr ts \<Rightarrow> Inr ((off, sz) # ts))"

definition plan_chunks :: "int \<Rightarrow> size_t \<Rightarrow> plan_error + (size_t \<times> size_t) list" where
  "plan_chunks num fsz =
     (if fsz = 0 then Inl Invalid_file_size
      else let n = adjust_connections num fsz
        in if n = 0 then Inl Division_by_zero
           else if n < 0 then Inl Negative_array
           else assign_tasks n fsz (chunk_size_for n fsz) [0..<nat n])"

section \<open>The loop on natural numbers\<close>

text \<open>What holds of the number of connections once it has been adjusted.\<close>

definition fits :: "int \<Rightarrow> size_t \<Rightarrow> bool" where
  "fits n fsz \<longleftrightarrow> 0 < n \<and> nat n \<le> unat fsz"

lemma fits_chunk_pos: "fits n fsz \<Longrightarrow> 0 < unat fsz div nat n"
  by (simp add: fits_def div_greater_zero_iff)

lemma fits_unat: "fits n fsz \<Longrightarrow> unat (to_size n) = nat n"
  using unat_size_bound [of fsz] by (intro unat_to_size) (auto simp: fits_def)

lemma fits_index: "fits n fsz \<Longrightarrow> i < nat n \<Longrightarrow> unat (to_size (int i)) = i"
  using unat_size_bound [of fsz] by (subst unat_to_size) (auto simp: fits_def)

lemma fits_prefix: "i \<le> nat n \<Longrightarrow> i * (unat fsz div nat n) \<le> unat fsz"
  by (metis div_times_less_eq_dividend le_trans mult.commute mult_le_mono2)

lemma unat_chunk_size:
  assumes "fits n fsz"
  shows "unat (chunk_size_for n fsz) = unat fsz div nat n"
proof -
  have u: "unat (fsz div to_size n) = unat fsz div nat n"
    by (simp add: unat_div fits_unat [OF assms])
  with fits_chunk_pos [OF assms] have "\<not> fsz div to_size n < 1" by (simp add: word_less_nat_alt)
  then show ?thesis by (simp add: chunk_size_for_def Let_def u)
qed

lemma unat_task_offset:
  assumes "fits n fsz" and "i < nat n"
  shows "unat (task_offset (chunk_size_for n fsz) i) = i * (unat fsz div nat n)"
proof -
  have "i * (unat fsz div nat n) < 2 ^ 64"
    using fits_prefix [of i n fsz] assms unat_size_bound [of fsz] by linarith
  then show ?thesis
    using assms
    by (simp add: task_offset_def unat_mult_size_no_wrap fits_index unat_chunk_size)
qed

lemma unat_task_size:
  assumes "fits n fsz" and "i < nat n"
  shows "unat (task_size n fsz (chunk_size_for n fsz) i) =
    (if Suc i = nat n then unat fsz - i * (unat fsz div nat n) else unat fsz div nat n)"
proof -
  let ?c = "chunk_size_for n fsz"
  have off: "unat (?c * to_size (int i)) = i * (unat fsz div nat n)"
    using unat_task_offset [OF assms] by (simp add: task_offset_def mult.commute)
  have le: "?c * to_size (int i) \<le> fsz"
    using fits_prefix [of i n fsz] assms off by (simp add: word_le_nat_alt)
  have iff: "int i = n - 1 \<longleftrightarrow> Suc i = nat n" using assms by (auto simp: fits_def)
  show ?thesis
    using unat_sub_size [OF le] off assms(1)
    by (simp add: task_size_def unat_chunk_size iff)
qed

lemma task_end:
  assumes "fits n fsz" and "i < nat n"
  shows "unat (task_offset (chunk_size_for n fsz) i) + unat (task_size n fsz (chunk_size_for n fsz) i) =
    (if Suc i = nat n then unat fsz else Suc i * (unat fsz div nat n))"
  using fits_prefix [of i n fsz] assms by (auto simp: unat_task_offset unat_task_size)

lemma task_end_le:
  assumes "fits n fsz" and "i < nat n"
  shows "unat (task_offset (chunk_size_for n fsz) i) +
    unat (task_size n fsz (chunk_size_for n fsz) i) \<le> unat fsz"
  using task_end [OF assms] fits_prefix [of "Suc i" n fsz] assms(2) by auto

lemma task_size_pos:
  assumes "fits n fsz" and "i < nat n"
  shows "0 < unat (task_size n fsz (chunk_size_for n fsz) i)"
  using fits_prefix [of "Suc i" n fsz] fits_chunk_pos [OF assms(1)] assms
  by (auto simp: unat_task_size)

lemma task_valid:
  assumes "fits n fsz" and "i < nat n"
  shows "task_size n fsz (chunk_size_for n fsz) i \<noteq> 0 \<and>
    \<not> fsz < task_offset (chunk_size_for n fsz) i + task_size n fsz (chunk_size_for n fsz) i"
proof -
  let ?o = "task_offset (chunk_size_for n fsz) i" and ?s = "task_size n fsz (chunk_size_for n fsz) i"
  note e = task_end_le [OF assms]
  then have "unat (?o + ?s) = unat ?o + unat ?s"
    using unat_size_bound [of fsz] by (intro unat_add_size_no_wrap) linarith
  with e have "\<not> fsz < ?o + ?s" by (simp add: word_less_nat_alt)
  with task_size_pos [OF assms] show ?thesis by auto
qed

definition tasks_of :: "int \<Rightarrow> size_t \<Rightarrow> (size_t \<times> size_t) list" where
  "tasks_of n fsz =
     map (\<lambda>i. (task_offset (chunk_size_for n fsz) i, task_size n fsz (chunk_size_for n fsz) i)) [0..<nat n]"

lemma assign_all:
  assumes "fits n fsz" and "\<forall>i \<in> set is. i < nat n"
  shows "assign_tasks n fsz (chunk_size_for n fsz) is =
    Inr (map (\<lambda>i. (task_offset (chunk_size_for n fsz) i, task_size n fsz (chunk_size_for n fsz) i)) is)"
  using assms(2) by (induction "is") (auto simp: Let_def task_valid [OF assms(1)])

lemma concat_tasks:
  assumes "fits n fsz" and "k < nat n"
  shows "concat (map (\<lambda>i. seg (unat (task_offset (chunk_size_for n fsz) i))
      (unat (task_size n fsz (chunk_size_for n fsz) i)) f) [0..<Suc k]) =
    seg 0 (unat (task_offset (chunk_size_for n fsz) k) +
      unat (task_size n fsz (chunk_size_for n fsz) k)) f"
  using assms(2)
proof (induction k)
  case 0
  then show ?case by (simp add: unat_task_offset [OF assms(1)])
next
  case (Suc k)
  then have k: "k < nat n" "Suc k \<noteq> nat n" by auto
  have "unat (task_offset (chunk_size_for n fsz) k) + unat (task_size n fsz (chunk_size_for n fsz) k) =
    unat (task_offset (chunk_size_for n fsz) (Suc k))"
    using Suc.prems k by (simp add: unat_task_size [OF assms(1)] unat_task_offset [OF assms(1)])
  with Suc.IH [OF k(1)] show ?case
    by (subst upt_Suc_append) (simp_all add: seg_append)
qed

text \<open>The number of connections after the adjustment: at least one, at most the file size.\<close>

lemma adjust_fits:
  assumes "0 < num" and "num \<le> INT_MAX" and "fsz \<noteq> 0"
  shows "fits (adjust_connections num fsz) fsz"
proof (cases "fsz < to_size num")
  case True
  have "unat (to_size num) = nat num" using assms(1,2) by (intro unat_to_size) (auto simp: INT_MAX_def)
  with True have lt: "unat fsz < nat num" by (simp add: word_less_nat_alt)
  have pos: "0 < unat fsz" using assms(3) by (simp add: unat_gt_0)
  have "uint fsz < num" using lt assms(1) by (simp add: zless_nat_eq_int_zless)
  moreover have "0 \<le> uint fsz" by (rule uint_ge_0)
  ultimately have "to_int (uint fsz) = uint fsz"
    using assms(2) by (intro to_int_small) (linarith, simp add: INT_MAX_def)
  with True have adj: "adjust_connections num fsz = int (unat fsz)"
    by (simp add: adjust_connections_def)
  show ?thesis unfolding fits_def adj using pos by (simp only: nat_int of_nat_0_less_iff order_refl simp_thms)
next
  case False
  have "unat (to_size num) = nat num" using assms(1,2) by (intro unat_to_size) (auto simp: INT_MAX_def)
  with False assms(1) show ?thesis
    by (simp add: adjust_connections_def fits_def word_less_nat_alt)
qed

lemma plan_chunks_eq:
  assumes "0 < num" and "num \<le> INT_MAX" and "fsz \<noteq> 0"
  shows "plan_chunks num fsz = Inr (tasks_of (adjust_connections num fsz) fsz)"
proof -
  let ?n = "adjust_connections num fsz"
  have f: "fits ?n fsz" using assms by (rule adjust_fits)
  then have "0 < ?n" by (simp add: fits_def)
  then show ?thesis
    using assms(3) assign_all [OF f, of "[0..<nat ?n]"]
    by (simp add: plan_chunks_def tasks_of_def Let_def)
qed

text \<open>The chunks of a plan, as intervals of the file, in order and one after the other.\<close>

lemma tasks_of_tile:
  assumes "fits n fsz" and "length f = unat fsz"
  shows "concat (map (\<lambda>(off, sz). seg (unat off) (unat sz) f) (tasks_of n fsz)) = f"
proof -
  obtain k where k: "nat n = Suc k" using assms(1) by (cases "nat n") (auto simp: fits_def)
  have "unat (task_offset (chunk_size_for n fsz) k) + unat (task_size n fsz (chunk_size_for n fsz) k) =
    unat fsz" using task_end [OF assms(1), of k] k by simp
  then show ?thesis
    using concat_tasks [OF assms(1), of k f] k assms(2) [symmetric]
    by (simp add: tasks_of_def comp_def)
qed

lemma tasks_of_apart:
  assumes "fits n fsz" and "i < j" and "j < length (tasks_of n fsz)"
  shows "unat (fst (tasks_of n fsz ! i)) + unat (snd (tasks_of n fsz ! i)) \<le> unat (fst (tasks_of n fsz ! j))"
proof -
  have ij: "i < nat n" "j < nat n" "Suc i \<noteq> nat n" using assms(2,3) by (auto simp: tasks_of_def)
  have "Suc i * (unat fsz div nat n) \<le> j * (unat fsz div nat n)"
    using assms(2) by (intro mult_le_mono1) simp
  with ij show ?thesis
    using task_end [OF assms(1) ij(1)] unat_task_offset [OF assms(1) ij(2)]
    by (simp add: tasks_of_def)
qed

lemma tasks_of_bound:
  assumes "fits n fsz" and "(off, sz) \<in> set (tasks_of n fsz)"
  shows "0 < unat sz" and "unat off + unat sz \<le> unat fsz"
  using assms task_size_pos [OF assms(1)] task_end_le [OF assms(1)] by (auto simp: tasks_of_def)

lemma length_tasks_of: "fits n fsz \<Longrightarrow> length (tasks_of n fsz) = nat n"
  by (simp add: tasks_of_def)

lemma tasks_of_disjoint:
  assumes "fits n fsz" and "i < length (tasks_of n fsz)" and "j < length (tasks_of n fsz)" and "i \<noteq> j"
  shows "unat (fst (tasks_of n fsz ! i)) + unat (snd (tasks_of n fsz ! i)) \<le> unat (fst (tasks_of n fsz ! j)) \<or>
    unat (fst (tasks_of n fsz ! j)) + unat (snd (tasks_of n fsz ! j)) \<le> unat (fst (tasks_of n fsz ! i))"
  using tasks_of_apart [OF assms(1), of i j] tasks_of_apart [OF assms(1), of j i] assms(2-4)
  by (cases "i < j") auto

lemma tasks_of_nth_bound:
  assumes "fits n fsz" and "i < length (tasks_of n fsz)"
  shows "unat (fst (tasks_of n fsz ! i)) + unat (snd (tasks_of n fsz ! i)) \<le> unat fsz"
  using tasks_of_bound(2) [OF assms(1), of "fst (tasks_of n fsz ! i)" "snd (tasks_of n fsz ! i)"] assms(2)
  by simp

text \<open>An array of the size of the file that agrees with it on every chunk is the file.\<close>

lemma tasks_of_assemble:
  assumes "fits n fsz" and "length f = unat fsz" and "length g = unat fsz"
    and "\<And>off sz. (off, sz) \<in> set (tasks_of n fsz) \<Longrightarrow>
      seg (unat off) (unat sz) g = seg (unat off) (unat sz) f"
  shows "g = f"
proof -
  have "map (\<lambda>(off, sz). seg (unat off) (unat sz) g) (tasks_of n fsz) =
    map (\<lambda>(off, sz). seg (unat off) (unat sz) f) (tasks_of n fsz)"
    using assms(4) by (intro map_cong) auto
  then show ?thesis
    using tasks_of_tile [OF assms(1,2)] tasks_of_tile [OF assms(1,3)] by metis
qed


section \<open>Properties\<close>

text \<open>
  C4. The chunk plan of both download clients partitions the file. For every positive
  \<open>int\<close> number of connections and every non-zero 64-bit file size the loop assigns between
  one and \<open>num\<close> tasks, its validity check never fails, no task is empty, and the byte
  ranges of the tasks, in order, are exactly the file.
\<close>

theorem plan_partitions_file:
  assumes "0 < num" and "num \<le> INT_MAX" and "fsz \<noteq> 0" and "length f = unat fsz"
  shows "\<exists>tasks. plan_chunks num fsz = Inr tasks \<and> tasks \<noteq> [] \<and> int (length tasks) \<le> num \<and>
    (\<forall>(off, sz) \<in> set tasks. 0 < sz \<and> unat off + unat sz \<le> unat fsz) \<and>
    concat (map (\<lambda>(off, sz). seg (unat off) (unat sz) f) tasks) = f"
proof -
  let ?n = "adjust_connections num fsz"
  have fits: "fits ?n fsz" using adjust_fits [OF assms(1-3)] .
  have le: "?n \<le> num"
  proof (cases "fsz < to_size num")
    case True
    have "unat (to_size num) = nat num" using assms(1,2) by (intro unat_to_size) (simp_all add: INT_MAX_def)
    with True have "unat fsz < nat num" by (simp add: word_less_nat_alt)
    then have "int (unat fsz) < num" by linarith
    then have "uint fsz < num" by simp
    moreover have "to_int (uint fsz) = uint fsz"
      using assms(2) uint_ge_0 [of fsz] \<open>uint fsz < num\<close> unfolding INT_MAX_def by (intro to_int_small) linarith+
    ultimately show ?thesis using True assms(2) by (simp add: adjust_connections_def to_int_small INT_MAX_def)
  qed (simp add: adjust_connections_def)
  have "0 < sz" "unat off + unat sz \<le> unat fsz" if "(off, sz) \<in> set (tasks_of ?n fsz)" for off sz
    using tasks_of_bound [OF fits that] by (auto simp: word_less_nat_alt)
  moreover have "length (tasks_of ?n fsz) = nat ?n" "0 < ?n" using fits by (simp_all add: length_tasks_of fits_def)
  ultimately show ?thesis
    using plan_chunks_eq [OF assms(1-3)] tasks_of_tile [OF fits assms(4)] le by (intro exI [of _ "tasks_of ?n fsz"]) auto
qed

theorem plan_partitions_file_witness:
  "\<exists>tasks. plan_chunks 3 7 = Inr tasks \<and> int (length tasks) \<le> 3 \<and>
     concat (map (\<lambda>(off, sz). seg (unat off) (unat sz) ''abcdefg'') tasks) = ''abcdefg''"
  using plan_partitions_file [of 3 7 "''abcdefg''"] by (auto simp: INT_MAX_def)

text \<open>
  C39. A negative number of connections is not refused: the comparison with the \<open>size_t\<close>
  file size converts it to a huge value, so \<open>main\<close> takes the file size as the number of
  connections and starts one thread per byte.
\<close>

theorem plan_negative_connections:
  assumes "num < 0" and "- INT_MAX - 1 \<le> num" and "0 < length f" and "int (length f) \<le> INT_MAX"
  shows "\<exists>tasks. plan_chunks num (word_of_nat (length f)) = Inr tasks \<and> length tasks = length f"
proof -
  let ?fsz = "word_of_nat (length f) :: size_t"
  have u: "unat ?fsz = length f" using assms(4) by (intro unat_of_nat_size) (simp add: INT_MAX_def)
  have "uint (to_size num) = num + 2 ^ 64"
    using assms(1,2) mod_pos_pos_trivial [of "num + 2 ^ 64" "2 ^ 64"]
    by (simp add: to_size_def uint_word_of_int INT_MAX_def)
  moreover have ui: "uint ?fsz = int (length f)" using arg_cong [OF u, of int] by (simp only: of_nat_unat)
  ultimately have "?fsz < to_size num" using assms(2,4) unfolding word_less_def INT_MAX_def by simp
  then have a: "adjust_connections num ?fsz = int (length f)"
    using assms(4) unfolding adjust_connections_def ui INT_MAX_def by (simp add: to_int_small)
  have "fits (int (length f)) ?fsz" using u assms(3) by (simp add: fits_def)
  then show ?thesis
    using assign_all [of "int (length f)" ?fsz "[0..<length f]"] a u assms(3)
    by (auto simp: plan_chunks_def Let_def)
qed

theorem plan_negative_connections_witness:
  "\<exists>tasks. plan_chunks (- 1) (word_of_nat (length ''abcd'')) = Inr tasks \<and> length tasks = length ''abcd''"
  using plan_negative_connections [of "- 1" "''abcd''"] by (simp add: INT_MAX_def)

end
