(* ===== verification/Concurrent_Chunks.thy ===== *)
theory Concurrent_Chunks
  imports Prelude_Net
begin

text \<open>
  The shared \<open>file_data\<close> array of the two download clients. Each download thread owns
  one chunk of it and stores what it receives through \<open>output_ptr\<close>; the threads run
  under an arbitrary schedule. \<open>run_threads\<close> is that execution, \<open>solo\<close> the execution
  of one thread by itself. The locale \<open>chunk_thread\<close> is the contract of a thread body
  (it stays inside its chunk), and its main lemma is that under the contract every
  schedule gives each thread and each chunk what the thread alone would have given.
\<close>

section \<open>Schedules\<close>

fun run_threads :: "('t \<Rightarrow> bytes \<Rightarrow> 't \<times> bytes) \<Rightarrow> nat list \<Rightarrow> 't list \<Rightarrow> bytes \<Rightarrow> 't list \<times> bytes" where
  "run_threads step [] ts m = (ts, m)"
| "run_threads step (i # is) ts m =
     (if i < length ts
      then (case step (ts ! i) m of (t, m') \<Rightarrow> run_threads step is (ts[i := t]) m')
      else run_threads step is ts m)"

fun solo :: "('t \<Rightarrow> bytes \<Rightarrow> 't \<times> bytes) \<Rightarrow> nat \<Rightarrow> 't \<Rightarrow> bytes \<Rightarrow> 't \<times> bytes" where
  "solo step 0 t m = (t, m)"
| "solo step (Suc n) t m = (case step t m of (t', m') \<Rightarrow> solo step n t' m')"

lemma length_run_threads [simp]: "length (fst (run_threads step is ts m)) = length ts"
  by (induction "is" arbitrary: ts m) (auto split: prod.splits)

text \<open>
  A thread can end the process, by \<open>exit\<close> or by an undefined step: \<open>fin\<close> says which states of a
  thread do. The first such step of any thread is the end of all of them.
\<close>

fun run_process ::
  "('t \<Rightarrow> bytes \<Rightarrow> 't \<times> bytes) \<Rightarrow> ('t \<Rightarrow> 'e option) \<Rightarrow> nat list \<Rightarrow> 't list \<Rightarrow> bytes \<Rightarrow> 'e + 't list \<times> bytes" where
  "run_process step fin [] ts m = Inr (ts, m)"
| "run_process step fin (i # is) ts m =
     (if i < length ts
      then (case step (ts ! i) m of (t, m') \<Rightarrow>
              (case fin t of Some e \<Rightarrow> Inl e | None \<Rightarrow> run_process step fin is (ts[i := t]) m'))
      else run_process step fin is ts m)"

lemma run_threads_stopped:
  assumes "\<And>n. step (ts ! k) n = (ts ! k, n)" and "k < length ts"
  shows "fst (run_threads step sched ts m) ! k = ts ! k"
  using assms
proof (induction sched arbitrary: ts m)
  case (Cons i sched)
  show ?case
  proof (cases "i < length ts")
    case True
    obtain t m' where s: "step (ts ! i) m = (t, m')" by fastforce
    have k: "ts[i := t] ! k = ts ! k" using Cons.prems s by (cases "i = k") auto
    then have "fst (run_threads step sched (ts[i := t]) m') ! k = ts[i := t] ! k"
      using Cons.prems by (intro Cons.IH) simp_all
    then show ?thesis using True s k by simp
  qed (use Cons in simp)
qed simp

text \<open>
  When a state that ends the process is not left, the process ends early exactly when the
  threads, had they gone on, would include one in such a state.
\<close>

lemma run_process_threads:
  assumes "\<And>t n e. fin t = Some e \<Longrightarrow> step t n = (t, n)" and "\<And>k. k < length ts \<Longrightarrow> fin (ts ! k) = None"
  shows "(\<exists>e k. run_process step fin sched ts m = Inl e \<and> k < length ts \<and> fin (fst (run_threads step sched ts m) ! k) = Some e) \<or>
    run_process step fin sched ts m = Inr (run_threads step sched ts m) \<and>
      (\<forall>k < length ts. fin (fst (run_threads step sched ts m) ! k) = None)"
  using assms(2)
proof (induction sched arbitrary: ts m)
  case (Cons i sched)
  show ?case
  proof (cases "i < length ts")
    case True
    obtain t m' where s: "step (ts ! i) m = (t, m')" by fastforce
    show ?thesis
    proof (cases "fin t")
      case None
      have "fin (ts[i := t] ! k) = None" if "k < length (ts[i := t])" for k
        using that Cons.prems None by (cases "i = k") auto
      from Cons.IH [OF this, of m'] show ?thesis using True s None by simp
    next
      case (Some e)
      have "fst (run_threads step sched (ts[i := t]) m') ! i = t"
        using run_threads_stopped [of step "ts[i := t]" i sched m'] assms(1) [OF Some] True by simp
      then show ?thesis using True s Some by auto
    qed
  qed (use Cons in simp)
qed simp

section \<open>The contract of a thread body\<close>

locale chunk_thread =
  fixes step :: "'t \<Rightarrow> bytes \<Rightarrow> 't \<times> bytes"
    and lo :: "'t \<Rightarrow> nat"
    and hi :: "'t \<Rightarrow> nat"
    and ok :: "'t \<Rightarrow> bool"
  assumes lo_step: "step t m = (t', m') \<Longrightarrow> lo t' = lo t"
    and hi_step: "step t m = (t', m') \<Longrightarrow> hi t' = hi t"
    and ok_bounds: "ok t \<Longrightarrow> lo t \<le> hi t"
    and ok_step: "ok t \<Longrightarrow> hi t \<le> length m \<Longrightarrow> step t m = (t', m') \<Longrightarrow> ok t'"
    and length_step: "ok t \<Longrightarrow> hi t \<le> length m \<Longrightarrow> step t m = (t', m') \<Longrightarrow> length m' = length m"
    and frame: "ok t \<Longrightarrow> hi t \<le> length m \<Longrightarrow> step t m = (t', m') \<Longrightarrow> i < length m \<Longrightarrow>
      i < lo t \<or> hi t \<le> i \<Longrightarrow> m' ! i = m ! i"
    and local_thread: "ok t \<Longrightarrow> hi t \<le> length m \<Longrightarrow> length n = length m \<Longrightarrow>
      seg (lo t) (hi t - lo t) n = seg (lo t) (hi t - lo t) m \<Longrightarrow> fst (step t n) = fst (step t m)"
    and local_memory: "ok t \<Longrightarrow> hi t \<le> length m \<Longrightarrow> length n = length m \<Longrightarrow>
      seg (lo t) (hi t - lo t) n = seg (lo t) (hi t - lo t) m \<Longrightarrow>
      seg (lo t) (hi t - lo t) (snd (step t n)) = seg (lo t) (hi t - lo t) (snd (step t m))"
begin

text \<open>The chunks of a list of threads do not overlap and lie inside the array.\<close>

definition apart :: "'t list \<Rightarrow> nat \<Rightarrow> bool" where
  "apart ts n \<longleftrightarrow>
     (\<forall>i < length ts. ok (ts ! i) \<and> hi (ts ! i) \<le> n) \<and>
     (\<forall>i < length ts. \<forall>j < length ts. i \<noteq> j \<longrightarrow> hi (ts ! i) \<le> lo (ts ! j) \<or> hi (ts ! j) \<le> lo (ts ! i))"

definition chunk :: "'t \<Rightarrow> bytes \<Rightarrow> bytes" where
  "chunk t m = seg (lo t) (hi t - lo t) m"

lemma apart_step:
  assumes "apart ts (length m)" and "i < length ts" and "step (ts ! i) m = (t, m')"
  shows "apart (ts[i := t]) (length m')"
proof -
  have i: "ok (ts ! i)" "hi (ts ! i) \<le> length m" using assms(1,2) by (auto simp: apart_def)
  note s = assms(3)
  have "lo t = lo (ts ! i)" "hi t = hi (ts ! i)" "ok t" "length m' = length m"
    using lo_step [OF s] hi_step [OF s] ok_step [OF i s] length_step [OF i s] by simp_all
  with assms(1,2) show ?thesis
    by (auto simp: apart_def nth_list_update)
qed

lemma chunk_other_step:
  assumes "apart ts (length m)" and "i < length ts" and "k < length ts" and "i \<noteq> k"
    and s: "step (ts ! i) m = (t, m')"
  shows "chunk (ts ! k) m' = chunk (ts ! k) m"
proof -
  have i: "ok (ts ! i)" "hi (ts ! i) \<le> length m" using assms by (auto simp: apart_def)
  have k: "ok (ts ! k)" "hi (ts ! k) \<le> length m" using assms by (auto simp: apart_def)
  have dis: "hi (ts ! i) \<le> lo (ts ! k) \<or> hi (ts ! k) \<le> lo (ts ! i)"
    using assms by (auto simp: apart_def)
  have len: "length m' = length m" using length_step [OF i s] .
  have b: "lo (ts ! k) \<le> hi (ts ! k)" using ok_bounds [OF k(1)] .
  show ?thesis
    unfolding chunk_def
  proof (rule nth_equalityI)
    show "length (seg (lo (ts ! k)) (hi (ts ! k) - lo (ts ! k)) m') =
      length (seg (lo (ts ! k)) (hi (ts ! k) - lo (ts ! k)) m)"
      using len by (simp add: length_seg_min)
    fix j assume "j < length (seg (lo (ts ! k)) (hi (ts ! k) - lo (ts ! k)) m')"
    then have j: "j < hi (ts ! k) - lo (ts ! k)" "lo (ts ! k) + j < length m"
      using k b len by (auto simp: length_seg_min)
    moreover have "m' ! (lo (ts ! k) + j) = m ! (lo (ts ! k) + j)"
      using j dis b by (intro frame [OF i s]) auto
    ultimately show "seg (lo (ts ! k)) (hi (ts ! k) - lo (ts ! k)) m' ! j =
      seg (lo (ts ! k)) (hi (ts ! k) - lo (ts ! k)) m ! j"
      using len by (simp add: nth_seg)
  qed
qed

lemma solo_cong:
  assumes "ok t" and "hi t \<le> length m" and "length n = length m" and "chunk t n = chunk t m"
  shows "fst (solo step k t n) = fst (solo step k t m) \<and>
    chunk t (snd (solo step k t n)) = chunk t (snd (solo step k t m))"
  using assms
proof (induction k arbitrary: t m n)
  case 0
  then show ?case by simp
next
  case (Suc k)
  obtain t1 m1 where s1: "step t m = (t1, m1)" by fastforce
  obtain t2 m2 where s2: "step t n = (t2, m2)" by fastforce
  have eq: "t2 = t1" "chunk t m2 = chunk t m1"
    using local_thread [OF Suc.prems(1-3)] local_memory [OF Suc.prems(1-3)] Suc.prems(4)
    by (simp_all add: chunk_def s1 s2)
  have bnd: "lo t1 = lo t" "hi t1 = hi t" using lo_step [OF s1] hi_step [OF s1] by simp_all
  have t1: "ok t1" "length m1 = length m" "length m2 = length n"
    using ok_step [OF Suc.prems(1,2) s1] length_step [OF Suc.prems(1,2) s1]
      length_step [OF Suc.prems(1) _ s2] Suc.prems(2,3) by simp_all
  have "chunk t1 m2 = chunk t1 m1" using eq bnd by (simp add: chunk_def)
  with Suc.IH [of t1 m1 m2] t1 bnd Suc.prems(2,3)
  have "fst (solo step k t1 m2) = fst (solo step k t1 m1) \<and>
    chunk t1 (snd (solo step k t1 m2)) = chunk t1 (snd (solo step k t1 m1))" by simp
  with eq bnd show ?case by (simp add: s1 s2 chunk_def)
qed

lemma length_run:
  assumes "apart ts (length m)"
  shows "length (snd (run_threads step sched ts m)) = length m"
  using assms
proof (induction sched arbitrary: ts m)
  case Nil
  then show ?case by simp
next
  case (Cons i sched)
  show ?case
  proof (cases "i < length ts")
    case True
    obtain t m' where s: "step (ts ! i) m = (t, m')" by fastforce
    have "length m' = length m"
      using length_step [OF _ _ s] Cons.prems True by (auto simp: apart_def)
    with Cons.IH [OF apart_step [OF Cons.prems True s]] True s show ?thesis by simp
  qed (use Cons in simp)
qed

theorem schedule_independent:
  assumes "apart ts (length m)" and "k < length ts"
  shows "fst (run_threads step sched ts m) ! k = fst (solo step (count_list sched k) (ts ! k) m) \<and>
    chunk (ts ! k) (snd (run_threads step sched ts m)) =
    chunk (ts ! k) (snd (solo step (count_list sched k) (ts ! k) m))"
  using assms
proof (induction sched arbitrary: ts m)
  case Nil
  then show ?case by simp
next
  case (Cons i sched)
  show ?case
  proof (cases "i < length ts")
    case False
    with Cons.prems have "i \<noteq> k" by auto
    with False Cons.IH [OF Cons.prems] show ?thesis by simp
  next
    case True
    obtain t m' where s: "step (ts ! i) m = (t, m')" by fastforce
    have ap: "apart (ts[i := t]) (length m')"
      using apart_step [OF Cons.prems(1) True s] .
    have k: "k < length (ts[i := t])" using Cons.prems(2) by simp
    note IH = Cons.IH [OF ap k]
    show ?thesis
    proof (cases "i = k")
      case eq: True
      have "lo t = lo (ts ! k)" "hi t = hi (ts ! k)"
        using lo_step [OF s] hi_step [OF s] eq by simp_all
      with IH eq True s show ?thesis by (simp add: chunk_def)
    next
      case ne: False
      have okk: "ok (ts ! k)" "hi (ts ! k) \<le> length m"
        using Cons.prems by (auto simp: apart_def)
      have len: "length m' = length m"
        using length_step [OF _ _ s] Cons.prems(1) True by (auto simp: apart_def)
      have "chunk (ts ! k) m' = chunk (ts ! k) m"
        using chunk_other_step [OF Cons.prems(1) True Cons.prems(2) ne s] .
      from solo_cong [OF okk len this] IH ne True s show ?thesis by simp
    qed
  qed
qed

end

end
