(* ===== verification/FtpClient.thy ===== *)
theory FtpClient
  imports ServerList ChunkPlan Concurrent_Chunks
begin

text \<open>
  The TCP download client, \<open>ftp/client.c\<close>: the connection attempts and the receive loop of
  \<open>download_chunk\<close>, and \<open>main\<close> from its arguments to the joined threads and \<open>output.dat\<close>. A thread body is a step function on the thread's state and
  the shared \<open>file_data\<close>; the incoming bytes of its socket are a list of arrivals, from
  which \<open>recv\<close> takes at most the number of bytes it is asked for.
\<close>

section \<open>download_chunk\<close>

definition FTPC_BUFFER_SIZE :: int where
  "FTPC_BUFFER_SIZE = 1048576"

text \<open>
  The connection loop: the results of successive \<open>connect\<close> calls (\<open>True\<close> for success) and
  the counter \<open>retries\<close>. The loop leaves when a call succeeds or the counter is 0; the
  caller then only looks at the counter. \<open>None\<close>: a call has not returned.
\<close>

fun connect_loop :: "nat \<Rightarrow> bool list \<Rightarrow> (nat \<times> bool) option" where
  "connect_loop retries [] = None"
| "connect_loop retries (up # rs) =
     (if \<not> up \<and> 0 < retries then connect_loop (retries - 1) rs else Some (retries, up))"

datatype rx = Data bytes | Err

text \<open>
  \<open>recv\<close> for at most \<open>n\<close> bytes: \<open>None\<close> when nothing has arrived; otherwise the return
  value, the bytes stored, and what is left. An arrival of no bytes is the end of the
  stream (\<open>recv\<close> returns 0).
\<close>

fun recv_stream :: "nat \<Rightarrow> rx list \<Rightarrow> (int \<times> bytes \<times> rx list) option" where
  "recv_stream n [] = None"
| "recv_stream n (Err # q) = Some (- 1, [], q)"
| "recv_stream n (Data d # q) =
     Some (int (length (take n d)), take n d, if length d \<le> n then q else Data (drop n d) # q)"

text \<open>
  \<open>Thread_exit (Some v)\<close> is \<open>pthread_exit((void *)v)\<close>; \<open>Thread_exit None\<close> is running off
  the end of the function, which leaves the exit value indeterminate.
\<close>

datatype thread_status = Running | Thread_exit "int option"

record ftp_thread =
  chunk_lo :: nat
  chunk_hi :: nat
  out_pos :: nat
  bytes_remaining :: int
  inbox :: "rx list"
  status :: thread_status

record link =
  sock_ok :: bool
  attempts :: "bool list"
  request_written :: bool
  incoming :: "rx list"

definition start_status :: "link \<Rightarrow> thread_status" where
  "start_status l =
     (if \<not> sock_ok l then Thread_exit (Some 0)
      else case connect_loop 3 (attempts l) of
        None \<Rightarrow> Running
      | Some (retries, _) \<Rightarrow>
          if retries = 0 then Thread_exit (Some 0)
          else if \<not> request_written l then Thread_exit (Some 0)
          else Running)"

definition ftp_start :: "size_t \<times> size_t \<Rightarrow> link \<Rightarrow> ftp_thread" where
  "ftp_start task l =
     \<lparr>chunk_lo = unat (fst task), chunk_hi = unat (fst task) + unat (snd task),
      out_pos = unat (fst task), bytes_remaining = to_ssize (snd task),
      inbox = (if connect_loop 3 (attempts l) = None then [] else incoming l),
      status = start_status l\<rparr>"

text \<open>One round of the receive loop, with \<open>recv\<close> storing directly into \<open>file_data\<close>.\<close>

definition ftp_step :: "ftp_thread \<Rightarrow> bytes \<Rightarrow> ftp_thread \<times> bytes" where
  "ftp_step t m =
     (if status t \<noteq> Running then (t, m)
      else if bytes_remaining t \<le> 0 then (t\<lparr>status := Thread_exit None\<rparr>, m)
      else let bytes_to_read =
             (if FTPC_BUFFER_SIZE < bytes_remaining t then FTPC_BUFFER_SIZE else bytes_remaining t)
        in case recv_stream (nat bytes_to_read) (inbox t) of
          None \<Rightarrow> (t, m)
        | Some (bytes_received, got, q) \<Rightarrow>
            let m' = blit (out_pos t) got m; t' = t\<lparr>inbox := q\<rparr>
            in if bytes_received \<le> 0 then (t'\<lparr>status := Thread_exit (Some 1)\<rparr>, m')
               else if bytes_remaining t < bytes_received then (t'\<lparr>status := Thread_exit (Some 0)\<rparr>, m')
               else (t'\<lparr>bytes_remaining := bytes_remaining t - bytes_received,
                        out_pos := out_pos t + nat bytes_received\<rparr>, m'))"

section \<open>main\<close>

datatype ftp_failure = Start_failed start_error | Ftp_plan_failed plan_error | Ftp_thread_not_created nat

text \<open>
  From the reply to CHECK to \<open>output.dat\<close>: the size is read with \<open>sscanf\<close> into an
  uninitialised variable, the chunks are planned, \<open>calloc\<close> gives the zeroed array, one
  thread per chunk is created (\<open>created i\<close> says whether \<open>pthread_create\<close> succeeds for thread
  \<open>i\<close>; the first failure ends the process) and runs under the schedule, and the array is
  written out. \<open>link_of\<close> gives the connections that the threads for a list of tasks get.
\<close>

definition ftp_download ::
  "int \<Rightarrow> size_t \<Rightarrow> (nat \<Rightarrow> bool) \<Rightarrow> string \<Rightarrow> ((size_t \<times> size_t) list \<Rightarrow> link list) \<Rightarrow> nat list \<Rightarrow>
     ftp_failure + ftp_thread list \<times> bytes" where
  "ftp_download num_connections junk created reply link_of sched =
     (let fsz = scan_ok junk reply
      in case plan_chunks num_connections fsz of
        Inl e \<Rightarrow> Inl (Ftp_plan_failed e)
      | Inr tasks \<Rightarrow>
          (case find (\<lambda>i. \<not> created i) [0..<length tasks] of
             Some i \<Rightarrow> Inl (Ftp_thread_not_created i)
           | None \<Rightarrow> Inr (run_threads ftp_step sched (map2 ftp_start tasks (link_of tasks)) (replicate (unat fsz) NUL))))"

text \<open>
  The program from its arguments on. The network is two functions of the address that is
  dialled and the text that is sent: \<open>ask\<close> gives the text in the zeroed buffer after the
  CHECK exchange, whose calls are not checked, and \<open>links i\<close> the connection of thread \<open>i\<close>.
\<close>

definition thread_links ::
  "(nat \<Rightarrow> string \<Rightarrow> int \<Rightarrow> string \<Rightarrow> link) \<Rightarrow> download_task list \<Rightarrow> link list" where
  "thread_links links ds =
     map2 (\<lambda>i d. links i (dt_server_ip d) (wire_port (dt_server_port d)) (task_request (nat FTPC_BUFFER_SIZE) d)) [0..<length ds] ds"

definition ftp_main ::
  "(string \<Rightarrow> string option) \<Rightarrow> int \<Rightarrow> size_t \<Rightarrow> (nat \<Rightarrow> bool) \<Rightarrow> (string \<Rightarrow> int \<Rightarrow> string \<Rightarrow> string) \<Rightarrow>
     (nat \<Rightarrow> string \<Rightarrow> int \<Rightarrow> string \<Rightarrow> link) \<Rightarrow> nat list \<Rightarrow> string list \<Rightarrow> ftp_failure + ftp_thread list \<times> bytes" where
  "ftp_main files junk_port junk created ask links sched args =
     (case client_start files junk_port args of
        Inl e \<Rightarrow> Inl (Start_failed e)
      | Inr (servers, num_connections, f) \<Rightarrow>
          (let reply = ask (fst (servers ! 0)) (wire_port (snd (servers ! 0))) (check_request (nat FTPC_BUFFER_SIZE) f)
           in ftp_download num_connections junk created reply (\<lambda>tasks. thread_links links (download_tasks servers f tasks)) sched))"

text \<open>The threads that \<open>main\<close> reports as failed: those that left a non-zero exit value.\<close>

definition reported_failed :: "ftp_thread list \<Rightarrow> nat list" where
  "reported_failed ts =
     filter (\<lambda>i. case status (ts ! i) of Thread_exit (Some v) \<Rightarrow> v \<noteq> 0 | _ \<Rightarrow> False) [0..<length ts]"

section \<open>A thread stays in its chunk\<close>

definition ftp_ok :: "ftp_thread \<Rightarrow> bool" where
  "ftp_ok t \<longleftrightarrow> chunk_lo t \<le> out_pos t \<and> out_pos t \<le> chunk_hi t \<and>
     bytes_remaining t = int (chunk_hi t - out_pos t)"

lemma recv_stream_length: "recv_stream n q = Some (r, got, q') \<Longrightarrow> length got \<le> n \<and> (0 \<le> r \<longrightarrow> r = int (length got)) \<and> (r < 0 \<longrightarrow> got = [])"
  by (induction n q rule: recv_stream.induct) auto

text \<open>The effect of one step, as an update of the thread and a store of at most the rest of its chunk.\<close>

lemma ftp_step_store:
  assumes "ftp_ok t" and "chunk_hi t \<le> length m"
  shows "\<exists>got. snd (ftp_step t m) = blit (out_pos t) got m \<and> out_pos t + length got \<le> chunk_hi t \<and>
    (\<forall>n. length n = length m \<longrightarrow> snd (ftp_step t n) = blit (out_pos t) got n)"
proof -
  let ?n = "if FTPC_BUFFER_SIZE < bytes_remaining t then FTPC_BUFFER_SIZE else bytes_remaining t"
  have pos: "out_pos t \<le> length m" using assms by (simp add: ftp_ok_def)
  show ?thesis
  proof (cases "status t \<noteq> Running \<or> bytes_remaining t \<le> 0 \<or> recv_stream (nat ?n) (inbox t) = None")
    case True
    then show ?thesis
      using assms pos by (intro exI [of _ "[]"]) (auto simp: ftp_step_def ftp_ok_def Let_def)
  next
    case False
    then obtain r got q where r: "recv_stream (nat ?n) (inbox t) = Some (r, got, q)" by auto
    have "length got \<le> nat ?n" using recv_stream_length [OF r] by blast
    also have "nat ?n \<le> nat (bytes_remaining t)" by auto
    also have "nat (bytes_remaining t) = chunk_hi t - out_pos t"
      using assms(1) unfolding ftp_ok_def by (metis nat_int)
    finally have "out_pos t + length got \<le> chunk_hi t" using assms(1) by (auto simp: ftp_ok_def)
    then show ?thesis
      using False r by (intro exI [of _ got]) (simp add: ftp_step_def Let_def)
  qed
qed

lemma ftp_step_thread: "fst (ftp_step t n) = fst (ftp_step t m)"
  by (simp add: ftp_step_def Let_def split: option.splits prod.splits)

lemma ftp_step_bounds: "chunk_lo (fst (ftp_step t m)) = chunk_lo t" "chunk_hi (fst (ftp_step t m)) = chunk_hi t"
  by (simp_all add: ftp_step_def Let_def split: option.splits prod.splits)

lemma ftp_step_ok: "ftp_ok t \<Longrightarrow> ftp_ok (fst (ftp_step t m))"
  by (auto simp: ftp_step_def ftp_ok_def Let_def dest!: recv_stream_length split: option.splits prod.splits)

interpretation ftp_threads: chunk_thread ftp_step chunk_lo chunk_hi ftp_ok
proof (unfold_locales, goal_cases)
  case (1 t m t' m')
  then show ?case using ftp_step_bounds(1) [of t m] by simp
next
  case (2 t m t' m')
  then show ?case using ftp_step_bounds(2) [of t m] by simp
next
  case (3 t)
  then show ?case by (simp add: ftp_ok_def)
next
  case (4 t m t' m')
  then show ?case using ftp_step_ok [of t m] by simp
next
  case (5 t m t' m')
  then show ?case using ftp_step_store [of t m] by auto
next
  case (6 t m t' m' i)
  then obtain got where got: "m' = blit (out_pos t) got m" "out_pos t + length got \<le> chunk_hi t"
    using ftp_step_store [of t m] by auto
  moreover have "chunk_lo t \<le> out_pos t" using 6(1) by (simp add: ftp_ok_def)
  ultimately show ?case using 6 by (auto simp: nth_blit)
next
  case (7 t m n)
  then show ?case using ftp_step_thread [of t n m] by simp
next
  case (8 t m n)
  then obtain got where got: "snd (ftp_step t m) = blit (out_pos t) got m"
    "out_pos t + length got \<le> chunk_hi t" "snd (ftp_step t n) = blit (out_pos t) got n"
    using ftp_step_store [of t m] by auto
  have "chunk_lo t \<le> out_pos t" using 8(1) by (simp add: ftp_ok_def)
  with got 8 show ?case by (simp add: seg_blit_inside)
qed

section \<open>A thread alone\<close>

lemma ftp_solo_stopped: "status t \<noteq> Running \<Longrightarrow> solo ftp_step k t m = (t, m)"
  by (induction k) (simp_all add: ftp_step_def)

lemma ftp_step_done:
  "status t = Running \<Longrightarrow> bytes_remaining t \<le> 0 \<Longrightarrow> ftp_step t m = (t\<lparr>status := Thread_exit None\<rparr>, m)"
  by (simp add: ftp_step_def)

text \<open>
  With enough bytes on the way, a thread that is run more often than it has bytes left
  finishes, and has stored exactly its bytes, in order, at its place.
\<close>

lemma ftp_step_data:
  assumes "status t = Running" and "0 < bytes_remaining t" and "inbox t = Data d # q" and "d \<noteq> []"
    and n: "n = nat (if FTPC_BUFFER_SIZE < bytes_remaining t then FTPC_BUFFER_SIZE else bytes_remaining t)"
  shows "ftp_step t m =
    (t\<lparr>inbox := (if length d \<le> n then q else Data (drop n d) # q),
       bytes_remaining := bytes_remaining t - int (length (take n d)),
       out_pos := out_pos t + length (take n d)\<rparr>, blit (out_pos t) (take n d) m)"
proof -
  have "0 < n" using assms(2) by (auto simp: n FTPC_BUFFER_SIZE_def)
  then have "take n d \<noteq> []" using assms(4) by simp
  moreover have "int (length (take n d)) \<le> bytes_remaining t" using assms(2) by (auto simp: n)
  ultimately show ?thesis
    using assms(1-4) unfolding ftp_step_def Let_def n [symmetric] by simp
qed

text \<open>One turn that receives: what is left, and that the rest of the chunk completes it.\<close>

lemma ftp_turn:
  assumes "status t = Running" and "ftp_ok t" and "inbox t = map Data ds @ q" and "[] \<notin> set ds"
    and "nat (bytes_remaining t) \<le> length (concat ds)" and "chunk_hi t \<le> length m" and "0 < bytes_remaining t"
  obtains t' m' es where "ftp_step t m = (t', m')" "status t' = Running" "ftp_ok t'" "inbox t' = map Data es @ q" "[] \<notin> set es"
    "nat (bytes_remaining t') \<le> length (concat es)" "nat (bytes_remaining t') < nat (bytes_remaining t)" "chunk_hi t' \<le> length m'"
    "blit (out_pos t') (take (nat (bytes_remaining t')) (concat es)) m' = blit (out_pos t) (take (nat (bytes_remaining t)) (concat ds)) m"
proof -
  obtain d ds' where ds: "ds = d # ds'" using assms(5,7) by (cases ds) auto
  have d: "d \<noteq> []" using assms(4) ds by auto
  define n where "n = nat (if FTPC_BUFFER_SIZE < bytes_remaining t then FTPC_BUFFER_SIZE else bytes_remaining t)"
  define t' where "t' = t\<lparr>inbox := (if length d \<le> n then map Data ds' @ q else Data (drop n d) # map Data ds' @ q),
     bytes_remaining := bytes_remaining t - int (length (take n d)),
     out_pos := out_pos t + length (take n d)\<rparr>"
  define m' where "m' = blit (out_pos t) (take n d) m"
  have step: "ftp_step t m = (t', m')"
    unfolding t'_def m'_def using ftp_step_data [OF assms(1) _ _ d n_def] assms(3,7) ds by simp
  have n: "0 < n" "n \<le> nat (bytes_remaining t)" using assms(7) by (auto simp: n_def FTPC_BUFFER_SIZE_def)
  have len: "0 < length (take n d)" "length (take n d) \<le> nat (bytes_remaining t)" using n d by auto
  define es where "es = (if length d \<le> n then ds' else drop n d # ds')"
  have es: "inbox t' = map Data es @ q" "[] \<notin> set es" "concat ds = take n d @ concat es"
    using assms(4) ds by (auto simp: t'_def es_def)
  have ok: "ftp_ok t'" using ftp_step_ok [OF assms(2), of m] step by simp
  have rem: "nat (bytes_remaining t') = nat (bytes_remaining t) - length (take n d)" by (simp add: t'_def)
  have "out_pos t + length (take n d) \<le> length m" using len(2) assms(2,6) unfolding ftp_ok_def by linarith
  then have hi: "chunk_hi t' \<le> length m'" using assms(6) by (simp add: t'_def m'_def)
  have "take (nat (bytes_remaining t)) (concat ds) = take n d @ take (nat (bytes_remaining t')) (concat es)"
    using len(2) n(2) unfolding es(3) rem by (simp add: take_append min_absorb2)
  moreover have "out_pos t + length (take n d @ take (nat (bytes_remaining t')) (concat es)) \<le> length m"
    using len(2) assms(2,6) rem unfolding ftp_ok_def by (simp, linarith)
  ultimately have "blit (out_pos t') (take (nat (bytes_remaining t')) (concat es)) m' =
      blit (out_pos t) (take (nat (bytes_remaining t)) (concat ds)) m"
    using blit_append [of "out_pos t" "take n d" "take (nat (bytes_remaining t')) (concat es)" m] by (simp add: t'_def m'_def)
  moreover have "nat (bytes_remaining t') \<le> length (concat es)" using rem assms(5) es(3) by simp
  moreover have "nat (bytes_remaining t') < nat (bytes_remaining t)" using rem len by linarith
  moreover have "status t' = Running" using assms(1) by (simp add: t'_def)
  ultimately show thesis using that step ok es(1,2) hi by blast
qed

lemma ftp_solo_finishes:
  assumes "status t = Running" and "ftp_ok t" and "inbox t = map Data ds @ q" and "[] \<notin> set ds"
    and "nat (bytes_remaining t) \<le> length (concat ds)" and "nat (bytes_remaining t) < k"
    and "chunk_hi t \<le> length m"
  shows "status (fst (solo ftp_step k t m)) = Thread_exit None \<and>
    snd (solo ftp_step k t m) = blit (out_pos t) (take (nat (bytes_remaining t)) (concat ds)) m"
  using assms
proof (induction k arbitrary: t m ds)
  case 0
  then show ?case by simp
next
  case (Suc k)
  show ?case
  proof (cases "bytes_remaining t \<le> 0")
    case True
    have "out_pos t \<le> length m" using Suc.prems(2,7) by (simp add: ftp_ok_def)
    with True Suc.prems(1) show ?thesis by (simp add: ftp_step_done ftp_solo_stopped)
  next
    case False
    then have "0 < bytes_remaining t" by simp
    with ftp_turn [OF Suc.prems(1-5,7)] obtain t' m' es where
      t': "ftp_step t m = (t', m')" "status t' = Running" "ftp_ok t'" "inbox t' = map Data es @ q" "[] \<notin> set es"
        "nat (bytes_remaining t') \<le> length (concat es)" "nat (bytes_remaining t') < nat (bytes_remaining t)" "chunk_hi t' \<le> length m'"
        "blit (out_pos t') (take (nat (bytes_remaining t')) (concat es)) m' =
          blit (out_pos t) (take (nat (bytes_remaining t)) (concat ds)) m" by metis
    have "nat (bytes_remaining t') < k" using t'(7) Suc.prems(6) by linarith
    from Suc.IH [OF t'(2-6) this t'(8)] show ?thesis by (simp add: t'(1,9))
  qed
qed

end
