(* ===== verification/FtpTransfer.thy ===== *)
theory FtpTransfer
  imports FtpServer FtpClient
begin

text \<open>
  The TCP client and server together: the theorems on the connection attempts, on the
  chunk plan, on the independence of the threads, and the end-to-end property that a
  download through the servers gives back the file.
\<close>

section \<open>Threads of a plan\<close>

text \<open>The link of a thread whose connection came up in time and whose request was sent.\<close>

definition link_up :: "link \<Rightarrow> bool" where
  "link_up l \<longleftrightarrow> sock_ok l \<and> request_written l \<and>
     (\<exists>k. connect_loop 3 (attempts l) = Some (Suc k, True))"

text \<open>
  What arrives on a link is what the server sent for the task's GET request, in
  non-empty pieces, with a kernel that accepted the server's writes.
\<close>

definition served :: "file_system \<Rightarrow> string \<Rightarrow> size_t \<times> size_t \<Rightarrow> link \<Rightarrow> bool" where
  "served fs f task l \<longleftrightarrow>
     (\<exists>ds junk ws. incoming l = map Data ds \<and> [] \<notin> set ds \<and>
        blocks_ok (block_sizes (unat (snd task))) ws \<and>
        handle_client fs junk (Some (get_request FTP_BUFFER_SIZE f (fst task) (snd task))) ws =
          (concat ds, Returned))"

lemma ftp_start_up:
  assumes "link_up l" and "unat (snd task) < 2 ^ 63"
  shows "status (ftp_start task l) = Running" and "inbox (ftp_start task l) = incoming l"
    and "ftp_ok (ftp_start task l)" and "nat (bytes_remaining (ftp_start task l)) = unat (snd task)"
  using assms
  by (auto simp: ftp_start_def start_status_def link_up_def ftp_ok_def to_ssize_small)

lemma ftp_start_chunk [simp]:
  "chunk_lo (ftp_start task l) = unat (fst task)"
  "chunk_hi (ftp_start task l) = unat (fst task) + unat (snd task)"
  "out_pos (ftp_start task l) = unat (fst task)"
  by (simp_all add: ftp_start_def)

lemma ftp_start_ok: "unat (snd task) < 2 ^ 63 \<Longrightarrow> ftp_ok (ftp_start task l)"
  by (simp add: ftp_start_def ftp_ok_def to_ssize_small)

lemma ftp_threads_apart:
  assumes "fits n fsz" and "unat fsz < 2 ^ 63" and "length links = length (tasks_of n fsz)"
  shows "ftp_threads.apart (map2 ftp_start (tasks_of n fsz) links) (unat fsz)"
proof -
  have "ftp_ok (ftp_start (tasks_of n fsz ! i) l)" if "i < length (tasks_of n fsz)" for i l
    using tasks_of_nth_bound [OF assms(1) that] assms(2) by (intro ftp_start_ok) linarith
  then show ?thesis
    unfolding ftp_threads.apart_def
    using assms(3) tasks_of_nth_bound [OF assms(1)] tasks_of_disjoint [OF assms(1)] by simp
qed

lemma ftp_solo_served:
  assumes "plain_name f" and "fs f = Some contents" and "length contents < 2 ^ 63"
    and "0 < unat (snd task)" and "unat (fst task) + unat (snd task) \<le> length contents"
    and "link_up l" and "served fs f task l" and "unat (snd task) < k" and "length m = length contents"
  shows "status (fst (solo ftp_step k (ftp_start task l) m)) = Thread_exit None \<and>
    seg (unat (fst task)) (unat (snd task)) (snd (solo ftp_step k (ftp_start task l) m)) =
    seg (unat (fst task)) (unat (snd task)) contents"
proof -
  obtain ds junk ws where ds: "incoming l = map Data ds @ []" "[] \<notin> set ds"
    and ws: "blocks_ok (block_sizes (unat (snd task))) ws"
    and h: "handle_client fs junk (Some (get_request FTP_BUFFER_SIZE f (fst task) (snd task))) ws = (concat ds, Returned)"
    using assms(7) unfolding served_def by auto
  have c: "concat ds = seg (unat (fst task)) (unat (snd task)) contents"
    using h unfolding handle_get_chunk [of f fs, OF assms(1-5) ws] by simp
  have small: "unat (snd task) < 2 ^ 63" using assms(3,5) by linarith
  note up = ftp_start_up [OF assms(6) small]
  have "status (fst (solo ftp_step k (ftp_start task l) m)) = Thread_exit None \<and>
    snd (solo ftp_step k (ftp_start task l) m) =
      blit (unat (fst task)) (take (unat (snd task)) (concat ds)) m"
    using ftp_solo_finishes [OF up(1,3) _ ds(2), of "[]" k m] up ds(1) assms(5,8,9) c by simp
  moreover have "length (concat ds) = unat (snd task)" unfolding c using assms(5) by simp
  ultimately show ?thesis
    using c assms(5,9) by (simp add: seg_simps)
qed

text \<open>
  From the reply to CHECK on: every schedule that runs each thread more often than its
  chunk has bytes ends with the served file in the array.
\<close>

lemma ftp_download_correct:
  assumes "plain_name f" and "length contents < 2 ^ 63" and "0 < length contents"
    and "0 < num" and "num \<le> INT_MAX" and "scan_ok old reply = file_size_of contents"
    and "plan_chunks num (file_size_of contents) = Inr tasks" and "length (link_of tasks) = length tasks"
    and "\<And>i. i < length tasks \<Longrightarrow> \<exists>fs. fs f = Some contents \<and> link_up (link_of tasks ! i) \<and> served fs f (tasks ! i) (link_of tasks ! i)"
    and "\<And>i. i < length tasks \<Longrightarrow> unat (snd (tasks ! i)) < count_list sched i" and "\<forall>i < length tasks. created i"
  shows "\<exists>ts. ftp_download num old created reply link_of sched = Inr (ts, contents) \<and>
    (\<forall>i < length ts. status (ts ! i) = Thread_exit None)"
proof -
  let ?fsz = "file_size_of contents"
  let ?n = "adjust_connections num ?fsz"
  have u: "unat ?fsz = length contents" using assms(2) by (rule unat_file_size)
  then have nz: "?fsz \<noteq> 0" using assms(3) by auto
  have fits: "fits ?n ?fsz" using adjust_fits [OF assms(4,5) nz] .
  have tasks: "tasks = tasks_of ?n ?fsz" using plan_chunks_eq [OF assms(4,5) nz] assms(7) by simp
  let ?m = "replicate (length contents) NUL"
  let ?ts = "map2 ftp_start tasks (link_of tasks)"
  have ap: "ftp_threads.apart ?ts (length ?m)"
    using ftp_threads_apart [OF fits] assms(2,8) u tasks by simp
  let ?r = "run_threads ftp_step sched ?ts ?m"
  have k: "status (fst ?r ! i) = Thread_exit None \<and>
      seg (unat (fst (tasks ! i))) (unat (snd (tasks ! i))) (snd ?r) =
      seg (unat (fst (tasks ! i))) (unat (snd (tasks ! i))) contents" if i: "i < length tasks" for i
  proof -
    have b: "0 < unat (snd (tasks ! i))" "unat (fst (tasks ! i)) + unat (snd (tasks ! i)) \<le> length contents"
      using tasks_of_bound [OF fits, of "fst (tasks ! i)" "snd (tasks ! i)"] i u by (simp_all add: tasks)
    have th: "?ts ! i = ftp_start (tasks ! i) (link_of tasks ! i)" "i < length ?ts" using i assms(8) by simp_all
    obtain fs where fs: "fs f = Some contents" "link_up (link_of tasks ! i)" "served fs f (tasks ! i) (link_of tasks ! i)"
      using assms(9) [OF i] by blast
    note ftp_threads.schedule_independent [OF ap th(2), of sched]
    then show ?thesis
      using ftp_solo_served [of f fs, OF assms(1) fs(1) assms(2) b fs(2,3) assms(10) [OF i], of ?m]
      unfolding th(1) ftp_threads.chunk_def by simp
  qed
  have len: "length (snd ?r) = length contents" using ftp_threads.length_run [OF ap, of sched] by simp
  have "snd ?r = contents"
  proof (rule tasks_of_assemble [OF fits])
    show "length contents = unat ?fsz" "length (snd ?r) = unat ?fsz" using u len by simp_all
    fix off sz assume "(off, sz) \<in> set (tasks_of ?n ?fsz)"
    then obtain i where "i < length tasks" "tasks ! i = (off, sz)" by (auto simp: tasks in_set_conv_nth)
    with k [of i] show "seg (unat off) (unat sz) (snd ?r) = seg (unat off) (unat sz) contents" by simp
  qed
  moreover have "length (fst ?r) = length tasks" using assms(8) by simp
  moreover have "find (\<lambda>i. \<not> created i) [0..<length tasks] = None" using assms(11) by (simp add: find_None_iff)
  ultimately show ?thesis
    using k assms(6,7) u by (intro exI [of _ "fst ?r"]) (simp add: ftp_download_def prod_eq_iff)
qed

section \<open>Properties\<close>

text \<open>
  C2. A download through several servers gives back the file. The client is started with a
  list of at most ten servers, a positive number of connections and a file name; all the
  servers hold the file, the first one answers the CHECK request, the threads are created, and what arrives at thread
  \<open>i\<close> is what server \<open>i\<close> modulo the number of servers sends for the GET request of the
  thread. Then under every schedule that runs each thread more often than its chunk has
  bytes, all threads end and \<open>output.dat\<close> is the file.
\<close>

theorem ftp_client_correct:
  assumes "files info = Some (concat (map server_line es))" and "es \<noteq> []" and "length es \<le> 10"
    and "\<forall>(h, p) \<in> set es. is_word h \<and> length h < 256 \<and> p \<le> 65535"
    and "0 < n" and "n \<le> 2147483647" and "plain_name f" and "0 < length contents" and "length contents < 2 ^ 63"
    and "\<forall>(h, p) \<in> set es. net h (int p) f = Some contents"
    and "(case hd es of (h, p) \<Rightarrow> handle_client (net h (int p)) junk (Some (check_request FTP_BUFFER_SIZE f)) [23] =
      (ask h (int p) (check_request FTP_BUFFER_SIZE f), Returned))"
    and "plan_chunks (int n) (file_size_of contents) = Inr tasks"
    and "\<And>i. i < length tasks \<Longrightarrow> (case es ! (i mod length es) of (h, p) \<Rightarrow>
      let l = links i h (int p) (get_request FTP_BUFFER_SIZE f (fst (tasks ! i)) (snd (tasks ! i)))
      in link_up l \<and> served (net h (int p)) f (tasks ! i) l)"
    and "\<And>i. i < length tasks \<Longrightarrow> unat (snd (tasks ! i)) < count_list sched i" and "\<forall>i < length tasks. created i"
  shows "\<exists>ts. ftp_main files junk_port old created ask links sched [info, show_nat n, f] = Inr (ts, contents) \<and>
    (\<forall>i < length ts. status (ts ! i) = Thread_exit None)"
proof -
  let ?servers = "map (\<lambda>(h, p). (h, int p)) es"
  let ?link_of = "\<lambda>tasks. thread_links links (download_tasks ?servers f tasks)"
  have start: "client_start files junk_port [info, show_nat n, f] = Inr (?servers, int n, f)"
    using assms(1-4,6) by (intro client_start_lines) auto
  have size: "nat FTPC_BUFFER_SIZE = FTP_BUFFER_SIZE" by (simp add: FTPC_BUFFER_SIZE_def FTP_BUFFER_SIZE_def)
  obtain h0 p0 where hd: "hd es = (h0, p0)" by fastforce
  note e0 = first_server [OF assms(2) hd]
  have "net h0 (int p0) f = Some contents" "p0 \<le> 65535" using e0(1) assms(4,10) by auto
  then have reply: "scan_ok old (ask h0 (wire_port (int p0)) (check_request FTP_BUFFER_SIZE f)) = file_size_of contents"
    using handle_check_reply [of f "net h0 (int p0)" contents 23, OF assms(7) _ order_refl] assms(11) hd
    by (simp add: wire_port_small)
  have "\<exists>fs. fs f = Some contents \<and> link_up (?link_of tasks ! i) \<and> served fs f (tasks ! i) (?link_of tasks ! i)"
    if i: "i < length tasks" for i
  proof -
    obtain h p where e: "es ! (i mod length es) = (h, p)" by fastforce
    then have "(h, p) \<in> set es" using server_of_list [OF assms(2)] by metis
    then have "net h (int p) f = Some contents" "p \<le> 65535" using assms(4,10) by auto
    moreover from this have "?link_of tasks ! i = links i h (int p) (get_request FTP_BUFFER_SIZE f (fst (tasks ! i)) (snd (tasks ! i)))"
      using nth_download_tasks [OF i assms(2) e, of f] i by (simp add: thread_links_def size wire_port_small task_request_def)
    ultimately show ?thesis using assms(13) [OF i] e by (auto simp: Let_def)
  qed
  from ftp_download_correct [where link_of = ?link_of, OF assms(7,9,8) _ _ reply assms(12) _ this assms(14,15)]
  obtain ts where "ftp_download (int n) old created (ask h0 (wire_port (int p0)) (check_request FTP_BUFFER_SIZE f)) ?link_of sched = Inr (ts, contents)"
    "\<forall>i < length ts. status (ts ! i) = Thread_exit None"
    using assms(5,6) by (auto simp: INT_MAX_def thread_links_def)
  then show ?thesis unfolding ftp_main_def start using e0(2) by (simp add: Let_def size)
qed

definition two_servers :: "(string \<times> nat) list" where
  "two_servers = [(''10.0.0.1'', 8080), (''10.0.0.2'', 8081)]"

theorem ftp_client_correct_witness:
  "\<exists>ts. ftp_main [''info'' \<mapsto> concat (map server_line two_servers)] 0 99 (\<lambda>i. True) (\<lambda>h p req. ok_reply FTP_BUFFER_SIZE 5)
       (\<lambda>i h p req. if i = 0 then \<lparr>sock_ok = True, attempts = [True], request_written = True, incoming = [Data ''he'']\<rparr>
        else \<lparr>sock_ok = True, attempts = [False, True], request_written = True, incoming = [Data ''l'', Data ''lo'']\<rparr>)
       [1, 0, 0, 1, 1, 0, 1] [''info'', show_nat 2, ''a''] = Inr (ts, ''hello'') \<and>
     (\<forall>i < length ts. status (ts ! i) = Thread_exit None)"
proof -
  let ?fs = "[''a'' \<mapsto> ''hello'']"
  let ?l0 = "\<lparr>sock_ok = True, attempts = [True], request_written = True, incoming = [Data ''he'']\<rparr>"
  let ?l1 = "\<lparr>sock_ok = True, attempts = [False, True], request_written = True, incoming = [Data ''l'', Data ''lo'']\<rparr>"
  have n: "plain_name ''a''" by (simp add: plain_name_def is_word_def isspace_def NUL_def)
  have sz: "file_size_of ''hello'' = 5" by (simp add: file_size_of_def)
  have chk: "handle_client ?fs zero_request (Some (check_request FTP_BUFFER_SIZE ''a'')) [23] =
    (ok_reply FTP_BUFFER_SIZE 5, Returned)"
    using handle_check_reply(1) [of "''a''" ?fs "''hello''" 23, OF n _ order_refl] by (simp add: sz)
  have plan: "plan_chunks (int 2) (file_size_of ''hello'') = Inr [(0, 2), (2, 3)]"
    unfolding sz by code_simp
  have up: "link_up ?l0" "link_up ?l1" by (simp_all add: link_up_def numeral_eq_Suc)
  have b: "blocks_ok (block_sizes (unat (2 :: size_t))) [2]" "blocks_ok (block_sizes (unat (3 :: size_t))) [3]"
    by (simp_all add: block_sizes.simps FTP_BUFFER_SIZE_def)
  have s0: "served ?fs ''a'' (0, 2) ?l0"
    unfolding served_def
    using handle_get_chunk [of "''a''" ?fs "''hello''" 2 0 "[2]" zero_request, OF n _ _ _ _ b(1)] b(1)
    by (intro exI [of _ "[''he'']"] exI [of _ zero_request] exI [of _ "[2]"]) (simp add: seg_def)
  have s1: "served ?fs ''a'' (2, 3) ?l1"
    unfolding served_def
    using handle_get_chunk [of "''a''" ?fs "''hello''" 3 2 "[3]" zero_request, OF n _ _ _ _ b(2)] b(2)
    by (intro exI [of _ "[''l'', ''lo'']"] exI [of _ zero_request] exI [of _ "[3]"]) (simp add: seg_def)
  have two: "i = 0 \<or> i = 1" if "i < length [(0 :: size_t, 2 :: size_t), (2, 3)]" for i
    using that by auto
  have sched: "unat (snd ([(0 :: size_t, 2 :: size_t), (2, 3)] ! i)) < count_list [1, 0, 0, 1, 1, 0, 1] i"
    if "i < length [(0 :: size_t, 2 :: size_t), (2, 3)]" for i
    using two [OF that] by (elim disjE) simp_all
  show ?thesis
    by (rule ftp_client_correct [where es = two_servers and net = "\<lambda>h p. ?fs" and n = 2, OF _ _ _ _ _ _ n _ _ _ _ plan _ sched])
      (use chk up s0 s1 in \<open>auto simp: two_servers_def is_word_def isspace_def NUL_def INT_MAX_def dest!: two\<close>)
qed

text \<open>
  with a socket and enough \<open>connect\<close> results, a thread goes on to its request exactly
  when one of the first three calls succeeds. The loop makes a fourth call, and when only
  that one succeeds the thread still gives up; giving up leaves the exit value 0, which
  \<open>main\<close> takes for success.
\<close>

theorem ftp_connect_three_attempts:
  assumes "sock_ok l" and "request_written l" and "4 \<le> length (attempts l)"
  shows "start_status l = (if True \<in> set (take 3 (attempts l)) then Running else Thread_exit (Some 0))"
proof -
  obtain a b c d rs where "attempts l = a # b # c # d # rs"
    using assms(3) by (metis Suc_le_length_iff numeral_eq_Suc pred_numeral_simps(2,3) BitM.simps)
  with assms(1,2) show ?thesis
    by (cases a; cases b; cases c; cases d)
      (simp_all add: start_status_def numeral_eq_Suc)
qed

theorem ftp_connect_three_attempts_witness:
  "start_status \<lparr>sock_ok = True, attempts = [False, False, False, True], request_written = True, incoming = []\<rparr> =
     Thread_exit (Some 0)"
  using ftp_connect_three_attempts
    [of "\<lparr>sock_ok = True, attempts = [False, False, False, True], request_written = True, incoming = []\<rparr>"]
  by simp

end
