(* ===== verification/AckQueue.thy ===== *)
theory AckQueue
  imports Prelude_Net
begin

text \<open>
  The acknowledgement queue of \<open>tftp/server.c\<close>: an array of five packets and a count,
  filled by the receiving loop of \<open>main\<close> and searched by the threads that wait for an
  acknowledgement. The locale \<open>ack_store\<close> states what its users rely on, over the list of
  pending acknowledgements; the array implementation is its interpretation.
\<close>

section \<open>Definitions\<close>

record sockaddr_in =
  sin_family :: "16 word"
  sin_port :: "16 word"
  sin_addr :: "32 word"
  sin_zero :: "64 word"

record ack_packet =
  seq_num :: size_t
  client_addr :: sockaddr_in
  addr_len :: nat

record ack_state =
  ack_queue :: "ack_packet list"
  ack_queue_size :: nat

definition MAX_QUEUE_SIZE :: nat where
  "MAX_QUEUE_SIZE = 5"

text \<open>A full queue drops the acknowledgement.\<close>

definition enqueue_ack :: "ack_packet \<Rightarrow> ack_state \<Rightarrow> ack_state" where
  "enqueue_ack p q =
     (if ack_queue_size q < MAX_QUEUE_SIZE
      then q\<lparr>ack_queue := (ack_queue q)[ack_queue_size q := p], ack_queue_size := Suc (ack_queue_size q)\<rparr>
      else q)"

text \<open>\<open>memcmp\<close> on the address compares every byte of the structure, the padding included.\<close>

definition is_ack :: "size_t \<Rightarrow> sockaddr_in \<Rightarrow> ack_packet \<Rightarrow> bool" where
  "is_ack s a p \<longleftrightarrow> seq_num p = s \<and> client_addr p = a"

function find_ack :: "size_t \<Rightarrow> sockaddr_in \<Rightarrow> ack_state \<Rightarrow> nat \<Rightarrow> nat option" where
  "find_ack s a q i =
     (if i < ack_queue_size q
      then (if is_ack s a (ack_queue q ! i) then Some i else find_ack s a q (Suc i))
      else None)"
  by pat_completeness auto
termination
  by (relation "measure (\<lambda>(s, a, q, i). ack_queue_size q - i)") auto

declare find_ack.simps [simp del]

text \<open>
  One pass of the waiting loop: the first matching entry is removed by moving the entries
  behind it down; without one the thread goes back to \<open>pthread_cond_wait\<close> (\<open>None\<close>).
\<close>

definition take_ack :: "size_t \<Rightarrow> sockaddr_in \<Rightarrow> ack_state \<Rightarrow> ack_state option" where
  "take_ack s a q =
     (case find_ack s a q 0 of
        None \<Rightarrow> None
      | Some i \<Rightarrow>
          (let n = ack_queue_size q - 1
           in Some (q\<lparr>ack_queue_size := n,
                      ack_queue := blit i (seg (Suc i) (n - i) (ack_queue q)) (ack_queue q)\<rparr>)))"

definition pending :: "ack_state \<Rightarrow> ack_packet list" where
  "pending q = take (ack_queue_size q) (ack_queue q)"

definition queue_ok :: "ack_state \<Rightarrow> bool" where
  "queue_ok q \<longleftrightarrow> length (ack_queue q) = MAX_QUEUE_SIZE \<and> ack_queue_size q \<le> MAX_QUEUE_SIZE"

definition empty_queue :: "ack_packet \<Rightarrow> ack_state" where
  "empty_queue p = \<lparr>ack_queue = replicate MAX_QUEUE_SIZE p, ack_queue_size = 0\<rparr>"

section \<open>The contract\<close>

locale ack_store =
  fixes enq :: "ack_packet \<Rightarrow> 'q \<Rightarrow> 'q"
    and tak :: "size_t \<Rightarrow> sockaddr_in \<Rightarrow> 'q \<Rightarrow> 'q option"
    and pend :: "'q \<Rightarrow> ack_packet list"
    and inv :: "'q \<Rightarrow> bool"
    and cap :: nat
  assumes inv_enq: "inv q \<Longrightarrow> inv (enq p q)"
    and inv_tak: "inv q \<Longrightarrow> tak s a q = Some q' \<Longrightarrow> inv q'"
    and pend_cap: "inv q \<Longrightarrow> length (pend q) \<le> cap"
    and pend_enq: "inv q \<Longrightarrow> pend (enq p q) = (if length (pend q) < cap then pend q @ [p] else pend q)"
    and tak_None: "inv q \<Longrightarrow> tak s a q = None \<longleftrightarrow> (\<forall>p \<in> set (pend q). \<not> is_ack s a p)"
    and tak_Some: "inv q \<Longrightarrow> tak s a q = Some q' \<Longrightarrow>
      \<exists>xs p ys. pend q = xs @ p # ys \<and> pend q' = xs @ ys \<and> is_ack s a p \<and> (\<forall>x \<in> set xs. \<not> is_ack s a x)"
begin

text \<open>An acknowledgement put into a queue with room is found, and no other one is lost.\<close>

lemma enq_then_tak:
  assumes "inv q" and "length (pend q) < cap" and "is_ack s a p"
  shows "\<exists>q'. tak s a (enq p q) = Some q'"
  using tak_None [OF inv_enq [OF assms(1)], of s a p] assms by (auto simp: pend_enq)

lemma tak_keeps_others:
  assumes "inv q" and "tak s a q = Some q'" and "\<not> is_ack s a p"
  shows "p \<in> set (pend q') \<longleftrightarrow> p \<in> set (pend q)"
  using tak_Some [OF assms(1,2)] assms(3) by auto

lemma tak_subset: "inv q \<Longrightarrow> tak s a q = Some q' \<Longrightarrow> set (pend q') \<subseteq> set (pend q)"
  using tak_Some [of q s a q'] by auto

lemma tak_length: "inv q \<Longrightarrow> tak s a q = Some q' \<Longrightarrow> Suc (length (pend q')) = length (pend q)"
  using tak_Some [of q s a q'] by auto

text \<open>With one pending acknowledgement per address, taking it leaves none for that address.\<close>

lemma tak_distinct:
  assumes "inv q" and "tak s a q = Some q'" and "distinct (map client_addr (pend q))"
  shows "distinct (map client_addr (pend q'))" and "a \<notin> client_addr ` set (pend q')"
  using tak_Some [OF assms(1,2)] assms(3) by (auto simp: is_ack_def)

lemma enq_distinct:
  assumes "inv q" and "distinct (map client_addr (pend q))" and "client_addr p \<notin> client_addr ` set (pend q)"
  shows "distinct (map client_addr (pend (enq p q)))"
  using assms by (auto simp: pend_enq)

end

section \<open>The array implements the contract\<close>

lemma find_ack_Some:
  "find_ack s a q i = Some j \<Longrightarrow>
     i \<le> j \<and> j < ack_queue_size q \<and> is_ack s a (ack_queue q ! j) \<and>
     (\<forall>k. i \<le> k \<and> k < j \<longrightarrow> \<not> is_ack s a (ack_queue q ! k))"
proof (induction s a q i rule: find_ack.induct)
  case (1 s a q i)
  show ?case
  proof (cases "i < ack_queue_size q \<and> \<not> is_ack s a (ack_queue q ! i)")
    case True
    with "1.prems" have "find_ack s a q (Suc i) = Some j" by (simp add: find_ack.simps [of s a q i])
    with "1.IH" True have IH: "Suc i \<le> j" "j < ack_queue_size q" "is_ack s a (ack_queue q ! j)"
      "\<forall>k. Suc i \<le> k \<and> k < j \<longrightarrow> \<not> is_ack s a (ack_queue q ! k)" by blast+
    have "i \<le> k \<longleftrightarrow> k = i \<or> Suc i \<le> k" for k by auto
    with IH True show ?thesis by auto
  next
    case False
    with "1.prems" show ?thesis by (auto simp: find_ack.simps [of s a q i] split: if_splits)
  qed
qed

lemma find_ack_None:
  "find_ack s a q i = None \<longleftrightarrow> (\<forall>k. i \<le> k \<and> k < ack_queue_size q \<longrightarrow> \<not> is_ack s a (ack_queue q ! k))"
proof (induction s a q i rule: find_ack.induct)
  case (1 s a q i)
  show ?case
  proof (cases "i < ack_queue_size q \<and> \<not> is_ack s a (ack_queue q ! i)")
    case True
    have split: "i \<le> k \<longleftrightarrow> k = i \<or> Suc i \<le> k" for k by auto
    from True "1.IH" have IH: "find_ack s a q (Suc i) = None \<longleftrightarrow>
      (\<forall>k. Suc i \<le> k \<and> k < ack_queue_size q \<longrightarrow> \<not> is_ack s a (ack_queue q ! k))" by blast
    show ?thesis
      unfolding find_ack.simps [of s a q i] split using True IH by auto
  next
    case False
    then show ?thesis by (auto simp: find_ack.simps [of s a q i])
  qed
qed

lemma pending_set_nth: "queue_ok q \<Longrightarrow> set (pending q) = (\<lambda>k. ack_queue q ! k) ` {0..<ack_queue_size q}"
  using nth_image [of "ack_queue_size q" "ack_queue q"] by (simp add: pending_def queue_ok_def)

lemma pending_remove:
  assumes "queue_ok q" and "i < ack_queue_size q"
  shows "take (ack_queue_size q - 1) (blit i (seg (Suc i) (ack_queue_size q - 1 - i) (ack_queue q)) (ack_queue q)) =
    take i (pending q) @ drop (Suc i) (pending q)"
proof -
  let ?n = "ack_queue_size q" and ?xs = "ack_queue q"
  have "?n \<le> length ?xs" using assms(1) by (simp add: queue_ok_def)
  then have len: "length (seg (Suc i) (?n - 1 - i) ?xs) = ?n - 1 - i"
    using assms(2) by (subst length_seg) auto
  have "take (?n - 1) (blit i (seg (Suc i) (?n - 1 - i) ?xs) ?xs) = take i ?xs @ seg (Suc i) (?n - 1 - i) ?xs"
    using assms(2) \<open>?n \<le> length ?xs\<close> len by (simp add: blit_def)
  moreover have "drop (Suc i) (pending q) = seg (Suc i) (?n - 1 - i) ?xs"
    by (simp add: pending_def seg_def drop_take)
  moreover have "take i (pending q) = take i ?xs" using assms(2) by (simp add: pending_def)
  ultimately show ?thesis by simp
qed

lemma take_ack_found:
  assumes "take_ack s a q = Some q'"
  shows "\<exists>i. find_ack s a q 0 = Some i \<and> q' = q\<lparr>ack_queue_size := ack_queue_size q - 1,
    ack_queue := blit i (seg (Suc i) (ack_queue_size q - 1 - i) (ack_queue q)) (ack_queue q)\<rparr>"
  using assms by (auto simp: take_ack_def Let_def split: option.splits)

lemma pending_take:
  assumes ok: "queue_ok q" and t: "take_ack s a q = Some q'"
  shows "\<exists>xs p ys. pending q = xs @ p # ys \<and> pending q' = xs @ ys \<and> is_ack s a p \<and> (\<forall>x \<in> set xs. \<not> is_ack s a x)"
proof -
  from take_ack_found [OF t] obtain i where i: "find_ack s a q 0 = Some i"
    and q': "q' = q\<lparr>ack_queue_size := ack_queue_size q - 1,
      ack_queue := blit i (seg (Suc i) (ack_queue_size q - 1 - i) (ack_queue q)) (ack_queue q)\<rparr>" by blast
  have f: "i < ack_queue_size q" "is_ack s a (ack_queue q ! i)" "\<forall>k < i. \<not> is_ack s a (ack_queue q ! k)"
    using find_ack_Some [OF i] by auto
  have len: "length (pending q) = ack_queue_size q" using ok by (simp add: pending_def queue_ok_def)
  have nth: "pending q ! k = ack_queue q ! k" if "k \<le> i" for k using that f(1) by (simp add: pending_def)
  have "pending q = take i (pending q) @ ack_queue q ! i # drop (Suc i) (pending q)"
    using id_take_nth_drop [of i "pending q"] f(1) len nth [of i] by simp
  moreover have "pending q' = take i (pending q) @ drop (Suc i) (pending q)"
    using pending_remove [OF ok f(1)] by (simp add: pending_def q')
  moreover have "\<forall>x \<in> set (take i (pending q)). \<not> is_ack s a x"
    using f(1,3) len nth by (auto simp: in_set_conv_nth)
  ultimately show ?thesis using f(2) by blast
qed

interpretation ackq: ack_store enqueue_ack take_ack pending queue_ok MAX_QUEUE_SIZE
proof (unfold_locales, goal_cases)
  case (1 q p)
  then show ?case by (simp add: queue_ok_def enqueue_ack_def)
next
  case (2 q s a q')
  from take_ack_found [OF 2(2)] obtain i where i: "find_ack s a q 0 = Some i"
    and q': "q' = q\<lparr>ack_queue_size := ack_queue_size q - 1,
      ack_queue := blit i (seg (Suc i) (ack_queue_size q - 1 - i) (ack_queue q)) (ack_queue q)\<rparr>" by blast
  have "i < ack_queue_size q" using find_ack_Some [OF i] by simp
  with 2(1) show ?case
    unfolding q' by (auto simp: queue_ok_def intro!: length_blit)
next
  case (3 q)
  then show ?case by (simp add: queue_ok_def pending_def)
next
  case (4 q p)
  then show ?case
    by (auto simp: queue_ok_def pending_def enqueue_ack_def take_Suc_conv_app_nth)
next
  case (5 q s a)
  have "take_ack s a q = None \<longleftrightarrow> find_ack s a q 0 = None"
    by (simp add: take_ack_def Let_def split: option.splits)
  also have "\<dots> \<longleftrightarrow> (\<forall>p \<in> set (pending q). \<not> is_ack s a p)"
    using 5 by (auto simp: find_ack_None pending_set_nth)
  finally show ?case .
next
  case (6 q s a q')
  from pending_take [OF 6] show ?case .
qed

lemma queue_ok_empty [simp]: "queue_ok (empty_queue p)" "pending (empty_queue p) = []"
  by (simp_all add: queue_ok_def empty_queue_def pending_def)

end
