(* ===== verification/TftpServer.thy ===== *)
theory TftpServer
  imports AckQueue Requests
begin

text \<open>
  The UDP file server, \<open>tftp/server.c\<close>: the receiving loop of \<open>main\<close>, which routes
  acknowledgements to the queue and starts a thread for every other datagram, and the
  thread body \<open>handle_request\<close>: the CHECK reply and the stop-and-wait loop of GET. The
  thread is a record whose fields are the locals of the loop, and each iteration is two
  steps: \<open>send_packet\<close> up to the wait for the acknowledgement, \<open>receive_ack\<close> after it.
\<close>

section \<open>Definitions\<close>

definition TFTP_BUFFER_SIZE :: nat where
  "TFTP_BUFFER_SIZE = 1024"

definition SEQ_SIZE :: nat where
  "SEQ_SIZE = 8"

text \<open>
  Where a thread is: at the head of the loop, waiting for the acknowledgement of the
  packet it sent (with the number of bytes sent), or gone. A failed \<open>sendto\<close> closes the
  socket that all threads share before the thread leaves.
\<close>

datatype srv_phase = Loop_head | Wait_ack nat | Thread_done | Socket_closed

record srv_thread =
  peer :: sockaddr_in
  src_bytes :: bytes
  file_pos :: nat
  remaining :: nat
  next_seq :: size_t
  phase :: srv_phase

definition data_packet :: "size_t \<Rightarrow> bytes \<Rightarrow> bytes" where
  "data_packet s payload = size_bytes s @ payload"

definition payload_at :: "srv_thread \<Rightarrow> bytes" where
  "payload_at t =
     (let bytes_to_read = (if TFTP_BUFFER_SIZE - SEQ_SIZE < remaining t then TFTP_BUFFER_SIZE - SEQ_SIZE else remaining t)
      in seg (file_pos t) bytes_to_read (src_bytes t))"

text \<open>
  The first half of an iteration; \<open>sendto_ok\<close> is whether \<open>sendto\<close> accepted the datagram
  (a datagram is sent whole or not at all). \<open>fread\<close> has moved the file position.
\<close>

definition send_packet :: "bool \<Rightarrow> srv_thread \<Rightarrow> srv_thread \<times> bytes option" where
  "send_packet sendto_ok t =
     (if phase t \<noteq> Loop_head then (t, None)
      else if remaining t = 0 then (t\<lparr>phase := Thread_done\<rparr>, None)
      else let payload = payload_at t
        in if payload = [] then (t\<lparr>phase := Thread_done\<rparr>, None)
           else let t' = t\<lparr>file_pos := file_pos t + length payload\<rparr>
             in if \<not> sendto_ok then (t'\<lparr>phase := Socket_closed\<rparr>, None)
                else (t'\<lparr>phase := Wait_ack (length payload + SEQ_SIZE)\<rparr>,
                      Some (data_packet (next_seq t) payload)))"

text \<open>
  The second half: the thread finds its acknowledgement in the queue, or goes on waiting.
  There is no timeout.
\<close>

definition receive_ack :: "srv_thread \<Rightarrow> ack_state \<Rightarrow> srv_thread \<times> ack_state" where
  "receive_ack t q =
     (case phase t of
        Wait_ack bytes_sent \<Rightarrow>
          (case take_ack (next_seq t) (peer t) q of
             None \<Rightarrow> (t, q)
           | Some q' \<Rightarrow>
               (let payload_size = bytes_sent - SEQ_SIZE
                in if remaining t < payload_size then (t\<lparr>phase := Thread_done\<rparr>, q')
                   else (t\<lparr>next_seq := next_seq t + 1, remaining := remaining t - payload_size,
                           phase := Loop_head\<rparr>, q')))
      | _ \<Rightarrow> (t, q))"

text \<open>
  What \<open>handle_request\<close> does before the loop: a single reply, the end of the process, or
  a thread at the head of the loop. A command that is neither CHECK nor GET is ignored.
\<close>

datatype srv_start = Reply string | No_reply | Process_exit | Transfer srv_thread

definition tftp_file_size :: "bytes \<Rightarrow> size_t" where
  "tftp_file_size c = word_of_nat (length c)"

definition handle_request :: "file_system \<Rightarrow> sockaddr_in \<Rightarrow> request \<Rightarrow> srv_start" where
  "handle_request fs a q =
     (if command q = ''CHECK'' then
        (case fs (filename q) of
           None \<Rightarrow> Reply not_found_reply
         | Some c \<Rightarrow> Reply (ok_reply TFTP_BUFFER_SIZE (tftp_file_size c)))
      else if command q = ''GET'' then
        (case fs (filename q) of
           None \<Rightarrow> Reply not_found_reply
         | Some c \<Rightarrow>
             if tftp_file_size c \<le> offset q \<or> tftp_file_size c < offset q + chunk_size q then Process_exit
             else Transfer \<lparr>peer = a, src_bytes = c, file_pos = unat (offset q),
                            remaining = unat (chunk_size q), next_seq = 0, phase = Loop_head\<rparr>)
      else No_reply)"

text \<open>
  The receiving loop of \<open>main\<close> on one result of \<open>recvfrom\<close> (\<open>None\<close> for a negative one).
  A datagram of \<open>BUFFER_SIZE\<close> bytes makes \<open>buffer[received] = '\0'\<close> store one byte past
  the array. \<open>junk_seq\<close> is what the local \<open>seq_num\<close> held, \<open>junk\<close> what \<open>malloc\<close> returned,
  \<open>thread_ok\<close> whether \<open>pthread_create\<close> succeeds.
\<close>

datatype routed = Nothing_received | Buffer_overflow | Ack_routed ack_state | Malformed | Thread_failed | Spawn srv_start

definition ack_seq :: "size_t \<Rightarrow> bytes \<Rightarrow> size_t" where
  "ack_seq junk_seq buf =
     (case sscanf_vals [Conv_zu] (cstr (drop 4 buf)) of [SSize w] \<Rightarrow> w | _ \<Rightarrow> junk_seq)"

definition route_datagram ::
  "file_system \<Rightarrow> size_t \<Rightarrow> request \<Rightarrow> bool \<Rightarrow> ack_state \<Rightarrow> sockaddr_in \<Rightarrow> nat \<Rightarrow> bytes option \<Rightarrow> routed" where
  "route_datagram fs junk_seq junk thread_ok q a alen received =
     (case received of
        None \<Rightarrow> Nothing_received
      | Some d \<Rightarrow>
          if TFTP_BUFFER_SIZE \<le> length d then Buffer_overflow
          else let buf = zeroed TFTP_BUFFER_SIZE d; s = cstr buf
            in if strncmp_eq 3 s ''ACK''
               then Ack_routed (enqueue_ack \<lparr>seq_num = ack_seq junk_seq buf, client_addr = a, addr_len = alen\<rparr> q)
               else let r = scan_request junk s
                 in if params r < 2 then Malformed
                    else if \<not> thread_ok then Thread_failed
                    else Spawn (handle_request fs a r))"

text \<open>\<open>main\<close> up to the loop: the results of \<open>socket\<close> and \<open>bind\<close>.\<close>

definition tftp_server_startup :: "int \<Rightarrow> int \<Rightarrow> int \<Rightarrow> bool" where
  "tftp_server_startup argc sock bound \<longleftrightarrow> argc = 2 \<and> sock \<noteq> - 1 \<and> bound \<noteq> - 1"

section \<open>Packets of a transfer\<close>

definition PAYLOAD_SIZE :: nat where
  "PAYLOAD_SIZE = 1016"

lemma payload_at_eq: "payload_at t = seg (file_pos t) (min PAYLOAD_SIZE (remaining t)) (src_bytes t)"
  by (simp add: payload_at_def TFTP_BUFFER_SIZE_def SEQ_SIZE_def PAYLOAD_SIZE_def min_def)

lemma length_payload_at: "length (payload_at t) \<le> PAYLOAD_SIZE" "length (payload_at t) \<le> remaining t"
  by (auto simp: payload_at_eq length_seg_min)

lemma length_data_packet [simp]: "length (data_packet s b) = 8 + length b"
  by (simp add: data_packet_def)

text \<open>A thread whose chunk lies in the file reads something while bytes remain.\<close>

lemma length_payload_inside:
  assumes "file_pos t + remaining t \<le> length (src_bytes t)"
  shows "length (payload_at t) = min PAYLOAD_SIZE (remaining t)"
  using assms by (auto simp: payload_at_eq length_seg_min)

lemma send_packet_inside:
  assumes "phase t = Loop_head" and "0 < remaining t" and "file_pos t + remaining t \<le> length (src_bytes t)"
  shows "send_packet True t =
    (t\<lparr>file_pos := file_pos t + length (payload_at t), phase := Wait_ack (length (payload_at t) + SEQ_SIZE)\<rparr>,
     Some (data_packet (next_seq t) (payload_at t)))"
proof -
  have "payload_at t \<noteq> []"
    using length_payload_inside [OF assms(3)] assms(2) by (auto simp: PAYLOAD_SIZE_def)
  with assms(1,2) show ?thesis by (simp add: send_packet_def Let_def)
qed

lemma receive_ack_taken:
  assumes "phase t = Wait_ack n" and "take_ack (next_seq t) (peer t) q = Some q'" and "n - SEQ_SIZE \<le> remaining t"
  shows "receive_ack t q =
    (t\<lparr>next_seq := next_seq t + 1, remaining := remaining t - (n - SEQ_SIZE), phase := Loop_head\<rparr>, q')"
  using assms by (simp add: receive_ack_def Let_def)

section \<open>Datagrams from the clients\<close>

lemma NUL_A: "NUL \<noteq> CHR ''A''"
  by (simp add: NUL_def)

lemma drop_zeroed: "length d \<le> n \<Longrightarrow> k \<le> length d \<Longrightarrow> drop k (zeroed n d) = zeroed (n - k) (drop k d)"
  by (simp add: zeroed_def)

text \<open>
  An acknowledgement text reaches the queue with the number it was printed from and the
  address it came from.
\<close>

lemma route_ack_text:
  assumes "length (''ACK '' @ show_size w) < n"
  shows "route_datagram fs junk_seq junk thread_ok q a alen (Some (snprintf n (''ACK '' @ show_size w))) =
    Ack_routed (enqueue_ack \<lparr>seq_num = w, client_addr = a, addr_len = alen\<rparr> q)"
proof -
  let ?d = "''ACK '' @ show_size w"
  have nn: "NUL \<notin> set ?d" "NUL \<notin> set (show_size w)" by (simp_all add: NUL_A)
  have len: "length ?d < 1024" using length_show_size [of w] by simp
  have "drop 4 (zeroed 1024 ?d) = zeroed 1020 (show_size w)" using len by (subst drop_zeroed) simp_all
  moreover have "scan [Conv_zu] (show_size w @ []) = ([SSize w], False, [])"
    by (subst scan_zu_show) simp_all
  ultimately have seq: "ack_seq junk_seq (zeroed 1024 ?d) = w"
    using nn(2) by (simp add: ack_seq_def sscanf_vals_def)
  have "strncmp_eq 3 ?d ''ACK''"
    using nn(1) by (simp add: strncmp_eq_def cstr_def NUL_def)
  moreover have "cstr (zeroed 1024 ?d) = ?d" using nn(1) by (rule cstr_zeroed)
  moreover have "snprintf n ?d = ?d" using assms by (rule snprintf_id)
  ultimately show ?thesis
    using len seq unfolding route_datagram_def TFTP_BUFFER_SIZE_def by (simp add: Let_def del: append_Cons)
qed

end
