(* ===== verification/TftpClient.thy ===== *)
theory TftpClient
  imports ServerList ChunkPlan Concurrent_Chunks
begin

text \<open>
  The UDP download client, \<open>tftp/client.c\<close>: the receive loop of \<open>download_chunk\<close> with its
  timeouts, acknowledgements and bounds checks, and \<open>main\<close> from its arguments to
  \<open>output.dat\<close>. The environment of a thread is the list of results of its \<open>recvfrom\<close>
  calls.
\<close>

section \<open>download_chunk\<close>

definition CLIENT_BUFFER_SIZE :: nat where
  "CLIENT_BUFFER_SIZE = 1024"

definition MAX_RETRIES :: nat where
  "MAX_RETRIES = 5"

text \<open>
  In an iteration \<open>setsockopt\<close> fails, which ends the process, or \<open>recvfrom\<close> times out or
  fails, or delivers a datagram, of which at most \<open>BUFFER_SIZE\<close> bytes are kept; \<open>Dgram d True\<close> says that the \<open>sendto\<close> of the
  acknowledgement succeeds.
\<close>

datatype dgram = Opt_failed | Timeout | Dgram bytes bool

text \<open>
  The status of a thread; \<open>T_process_exit\<close> and \<open>Memcpy_overflow\<close> are the end not only of the
  thread but of the process, see \<open>run_process\<close> in \<open>main\<close>. \<open>Memcpy_overflow\<close> marks the call \<open>memcpy(output_ptr, ..., payload_size)\<close> with a negative
  \<open>payload_size\<close>, which is converted to a huge \<open>size_t\<close>: undefined behaviour, after which
  the model says nothing.
\<close>

datatype tftp_status = T_running | T_exit int | T_process_exit | Memcpy_overflow

record tftp_thread =
  t_lo :: nat
  t_hi :: nat
  t_pos :: nat
  t_remaining :: int
  t_retry :: nat
  t_inbox :: "dgram list"
  t_acks :: "string list"
  t_status :: tftp_status

definition ack_text :: "size_t \<Rightarrow> string" where
  "ack_text s = snprintf CLIENT_BUFFER_SIZE (''ACK '' @ show_size s)"

text \<open>\<open>bytes_received - sizeof(seq_num)\<close>: computed in \<open>size_t\<close>, stored in an \<open>ssize_t\<close>.\<close>

definition payload_size_of :: "nat \<Rightarrow> int" where
  "payload_size_of bytes_received = to_ssize (word_of_nat bytes_received - 8)"

text \<open>
  The body of the loop after a datagram \<open>d\<close> has been received and the acknowledgement
  sent: \<open>retry_count\<close> is reset, the payload is checked and stored. The buffer was zeroed,
  so the sequence number of a datagram shorter than 8 bytes is padded with zeros.
\<close>

definition accept_dgram :: "bytes \<Rightarrow> tftp_thread \<Rightarrow> bytes \<Rightarrow> tftp_thread \<times> bytes" where
  "accept_dgram d t m =
     (let buf = zeroed CLIENT_BUFFER_SIZE d;
          p = payload_size_of (length d);
          t' = t\<lparr>t_retry := 0, t_acks := t_acks t @ [ack_text (bytes_size buf)]\<rparr>
      in if t_remaining t < p then (t'\<lparr>t_status := T_exit 1\<rparr>, m)
         else if int (t_hi t) < int (t_pos t) + p then (t'\<lparr>t_status := T_exit 1\<rparr>, m)
         else if p < 0 then (t'\<lparr>t_status := Memcpy_overflow\<rparr>, m)
         else (t'\<lparr>t_remaining := t_remaining t - p, t_pos := t_pos t + nat p\<rparr>,
               blit (t_pos t) (take (nat p) (drop 8 buf)) m))"

text \<open>Nothing received: the retry is counted, and the sixth in a row ends the thread.\<close>

definition count_retry :: "tftp_thread \<Rightarrow> tftp_thread" where
  "count_retry t =
     (let t' = t\<lparr>t_retry := t_retry t + 1\<rparr>
      in if MAX_RETRIES < t_retry t' then t'\<lparr>t_status := T_exit 1\<rparr> else t')"

definition tftp_step :: "tftp_thread \<Rightarrow> bytes \<Rightarrow> tftp_thread \<times> bytes" where
  "tftp_step t m =
     (if t_status t \<noteq> T_running then (t, m)
      else if t_remaining t \<le> 0 then (t\<lparr>t_status := T_exit 0\<rparr>, m)
      else case t_inbox t of
        [] \<Rightarrow> (t, m)
      | Opt_failed # evs \<Rightarrow> (t\<lparr>t_inbox := evs, t_status := T_process_exit\<rparr>, m)
      | Timeout # evs \<Rightarrow> (count_retry (t\<lparr>t_inbox := evs\<rparr>), m)
      | Dgram b ack_ok # evs \<Rightarrow>
          (let t' = t\<lparr>t_inbox := evs\<rparr>; d = take CLIENT_BUFFER_SIZE b
           in if d = [] then (count_retry t', m)
              else if \<not> ack_ok then (t'\<lparr>t_status := T_exit 1\<rparr>, m)
              else accept_dgram d t' m))"

text \<open>
  The start of a thread: \<open>sock_ok\<close> and \<open>sent_ok\<close> are the results of \<open>socket\<close> and of
  sending the GET request; both failures leave the thread with \<open>pthread_exit(NULL)\<close>.
\<close>

definition tftp_start :: "size_t \<times> size_t \<Rightarrow> bool \<Rightarrow> bool \<Rightarrow> dgram list \<Rightarrow> tftp_thread" where
  "tftp_start task sock_ok sent_ok evs =
     \<lparr>t_lo = unat (fst task), t_hi = unat (fst task) + unat (snd task), t_pos = unat (fst task),
      t_remaining = to_ssize (snd task), t_retry = 0, t_inbox = evs, t_acks = [],
      t_status = (if sock_ok \<and> sent_ok then T_running else T_exit 0)\<rparr>"

section \<open>main\<close>

datatype main_error = Tftp_start_failed start_error | Check_socket_failed | Check_send_failed | No_check_reply | Plan_failed plan_error
  | Thread_not_created nat | Process_exited | Undefined_memcpy

text \<open>
  The states of a thread that are the end of the process: \<open>exit\<close> after a failed \<open>setsockopt\<close>, and
  the undefined \<open>memcpy\<close>.
\<close>

definition process_end :: "tftp_thread \<Rightarrow> main_error option" where
  "process_end t =
     (case t_status t of T_process_exit \<Rightarrow> Some Process_exited | Memcpy_overflow \<Rightarrow> Some Undefined_memcpy | _ \<Rightarrow> None)"

text \<open>
  \<open>main\<close> after the server list has been read and the socket made: the CHECK exchange
  (\<open>None\<close> for a \<open>recvfrom\<close> that did not deliver), the size read into an uninitialised
  variable, the plan, the creation of the threads (\<open>created i\<close> says whether \<open>pthread_create\<close>
  succeeds for thread \<open>i\<close>; the first failure ends the process), the threads under a schedule
  up to the first that ends the process, and the array that is written to \<open>output.dat\<close>. \<open>env_of\<close>
  gives what the threads for a list of tasks meet.
\<close>

definition tftp_download ::
  "int \<Rightarrow> bool \<Rightarrow> size_t \<Rightarrow> (nat \<Rightarrow> bool) \<Rightarrow> bytes option \<Rightarrow> ((size_t \<times> size_t) list \<Rightarrow> (bool \<times> bool \<times> dgram list) list) \<Rightarrow> nat list \<Rightarrow>
     main_error + tftp_thread list \<times> bytes" where
  "tftp_download num_connections check_sent junk created reply env_of sched =
     (if \<not> check_sent then Inl Check_send_failed
      else case reply of
        None \<Rightarrow> Inl No_check_reply
      | Some d \<Rightarrow>
          if d = [] then Inl No_check_reply
          else let fsz = scan_ok junk (cstr (zeroed CLIENT_BUFFER_SIZE (take CLIENT_BUFFER_SIZE d)))
            in case plan_chunks num_connections fsz of
              Inl e \<Rightarrow> Inl (Plan_failed e)
            | Inr tasks \<Rightarrow>
                (case find (\<lambda>i. \<not> created i) [0..<length tasks] of
                   Some i \<Rightarrow> Inl (Thread_not_created i)
                 | None \<Rightarrow>
                     run_process tftp_step process_end sched
                       (map2 (\<lambda>task (s, w, evs). tftp_start task s w evs) tasks (env_of tasks))
                       (replicate (unat fsz) NUL)))"

text \<open>
  The program from its arguments on. The network is two functions of the address and the
  text that is sent: \<open>ask\<close> says whether the CHECK request could be sent and what was
  received, and \<open>envs i\<close> what thread \<open>i\<close> meets.
\<close>

definition thread_envs ::
  "(nat \<Rightarrow> string \<Rightarrow> int \<Rightarrow> string \<Rightarrow> bool \<times> bool \<times> dgram list) \<Rightarrow> download_task list \<Rightarrow> (bool \<times> bool \<times> dgram list) list" where
  "thread_envs envs ds =
     map2 (\<lambda>i d. envs i (dt_server_ip d) (wire_port (dt_server_port d)) (task_request CLIENT_BUFFER_SIZE d)) [0..<length ds] ds"

definition tftp_main ::
  "(string \<Rightarrow> string option) \<Rightarrow> int \<Rightarrow> size_t \<Rightarrow> int \<Rightarrow> (nat \<Rightarrow> bool) \<Rightarrow> (string \<Rightarrow> int \<Rightarrow> string \<Rightarrow> bool \<times> bytes option) \<Rightarrow>
     (nat \<Rightarrow> string \<Rightarrow> int \<Rightarrow> string \<Rightarrow> bool \<times> bool \<times> dgram list) \<Rightarrow> nat list \<Rightarrow> string list \<Rightarrow>
     main_error + tftp_thread list \<times> bytes" where
  "tftp_main files junk_port junk sock created ask envs sched args =
     (case client_start files junk_port args of
        Inl e \<Rightarrow> Inl (Tftp_start_failed e)
      | Inr (servers, num_connections, f) \<Rightarrow>
          if sock < 0 then Inl Check_socket_failed
          else let a = ask (fst (servers ! 0)) (wire_port (snd (servers ! 0))) (check_request CLIENT_BUFFER_SIZE f)
            in tftp_download num_connections (fst a) junk created (snd a) (\<lambda>tasks. thread_envs envs (download_tasks servers f tasks)) sched)"

section \<open>A thread stays in its chunk\<close>

definition tftp_ok :: "tftp_thread \<Rightarrow> bool" where
  "tftp_ok t \<longleftrightarrow> t_lo t \<le> t_pos t \<and> t_pos t \<le> t_hi t \<and> t_remaining t = int (t_hi t - t_pos t)"

lemma payload_size_of_eq: "n \<le> CLIENT_BUFFER_SIZE \<Longrightarrow> payload_size_of n = int n - 8"
proof -
  assume n: "n \<le> CLIENT_BUFFER_SIZE"
  have "word_of_nat n - 8 = (word_of_int (int n - 8) :: size_t)" by simp
  moreover have "signed_take_bit 63 (int n - 8) = int n - 8"
    using n by (intro signed_take_bit_int_eq_self) (simp_all add: CLIENT_BUFFER_SIZE_def)
  ultimately show ?thesis
    by (simp add: payload_size_of_def to_ssize_def sint_sbintrunc' del: of_int_diff of_int_of_nat_eq)
qed

text \<open>The three outcomes of a datagram for a well-formed thread.\<close>

lemma accept_dgram_cases:
  assumes "tftp_ok t" and "length d \<le> CLIENT_BUFFER_SIZE"
  shows "accept_dgram d t m =
    (let t' = t\<lparr>t_retry := 0, t_acks := t_acks t @ [ack_text (bytes_size (zeroed CLIENT_BUFFER_SIZE d))]\<rparr>
     in if t_remaining t < int (length d) - 8 then (t'\<lparr>t_status := T_exit 1\<rparr>, m)
        else if length d < 8 then (t'\<lparr>t_status := Memcpy_overflow\<rparr>, m)
        else (t'\<lparr>t_remaining := t_remaining t - (int (length d) - 8), t_pos := t_pos t + (length d - 8)\<rparr>,
              blit (t_pos t) (drop 8 d) m))"
proof -
  have "t_remaining t = int (t_hi t) - int (t_pos t)" using assms(1) by (simp add: tftp_ok_def)
  moreover have "take (length d - 8) (drop 8 (zeroed CLIENT_BUFFER_SIZE d)) = drop 8 d"
    by (simp add: zeroed_def)
  moreover have "nat (int (length d) - 8) = length d - 8" by simp
  ultimately show ?thesis
    unfolding accept_dgram_def payload_size_of_eq [OF assms(2)] Let_def by (simp add: not_less)
qed

lemma accept_dgram_store:
  assumes "tftp_ok t" and "length d \<le> CLIENT_BUFFER_SIZE" and "t_hi t \<le> length m"
  shows "\<exists>got. t_pos t + length got \<le> t_hi t \<and>
    (\<forall>n. length n = length m \<longrightarrow> snd (accept_dgram d t n) = blit (t_pos t) got n)"
proof (cases "t_remaining t < int (length d) - 8 \<or> length d < 8")
  case True
  then show ?thesis
    using assms by (intro exI [of _ "[]"]) (auto simp: accept_dgram_cases Let_def tftp_ok_def)
next
  case False
  then show ?thesis
    using assms(1) accept_dgram_cases [OF assms(1,2)]
    by (intro exI [of _ "drop 8 d"]) (auto simp: Let_def tftp_ok_def)
qed

lemma accept_dgram_thread: "fst (accept_dgram d t n) = fst (accept_dgram d t m)"
  by (simp add: accept_dgram_def Let_def)

lemma accept_dgram_ok:
  assumes "tftp_ok t" and "length d \<le> CLIENT_BUFFER_SIZE"
  shows "tftp_ok (fst (accept_dgram d t m))"
  using assms(1) unfolding accept_dgram_cases [OF assms] by (auto simp: tftp_ok_def Let_def)

lemma accept_dgram_bounds: "t_lo (fst (accept_dgram d t m)) = t_lo t" "t_hi (fst (accept_dgram d t m)) = t_hi t"
  by (simp_all add: accept_dgram_def Let_def)

lemma count_retry_simps [simp]: "t_lo (count_retry t) = t_lo t" "t_hi (count_retry t) = t_hi t"
  "t_pos (count_retry t) = t_pos t" "t_remaining (count_retry t) = t_remaining t"
  "t_inbox (count_retry t) = t_inbox t"
  by (simp_all add: count_retry_def Let_def)

lemma tftp_ok_cong [simp]: "tftp_ok (count_retry t) = tftp_ok t" "tftp_ok (t\<lparr>t_inbox := q\<rparr>) = tftp_ok t"
  "tftp_ok (t\<lparr>t_status := st\<rparr>) = tftp_ok t" "tftp_ok (t\<lparr>t_inbox := q, t_status := st\<rparr>) = tftp_ok t"
  by (simp_all add: tftp_ok_def)

lemma tftp_step_store:
  assumes "tftp_ok t" and "t_hi t \<le> length m"
  shows "\<exists>got. t_pos t + length got \<le> t_hi t \<and>
    (\<forall>n. length n = length m \<longrightarrow> snd (tftp_step t n) = blit (t_pos t) got n)"
proof (cases "\<exists>b evs. t_status t = T_running \<and> 0 < t_remaining t \<and> t_inbox t = Dgram b True # evs \<and>
    take CLIENT_BUFFER_SIZE b \<noteq> []")
  case True
  then obtain b evs where b: "t_status t = T_running" "0 < t_remaining t" "t_inbox t = Dgram b True # evs"
    "take CLIENT_BUFFER_SIZE b \<noteq> []" by blast
  have "tftp_step t n = accept_dgram (take CLIENT_BUFFER_SIZE b) (t\<lparr>t_inbox := evs\<rparr>) n" for n
    using b by (simp add: tftp_step_def Let_def)
  then show ?thesis
    using accept_dgram_store [of "t\<lparr>t_inbox := evs\<rparr>" "take CLIENT_BUFFER_SIZE b" m] assms by simp
next
  case False
  then have "snd (tftp_step t n) = n" for n
    by (auto simp: tftp_step_def Let_def split: list.splits dgram.splits)
  moreover have "t_pos t \<le> t_hi t" using assms(1) by (simp add: tftp_ok_def)
  ultimately show ?thesis using assms(2) by (intro exI [of _ "[]"]) simp
qed

lemma tftp_step_thread: "fst (tftp_step t n) = fst (tftp_step t m)"
  using accept_dgram_thread by (simp add: tftp_step_def Let_def split: list.splits dgram.splits)

lemma tftp_step_bounds: "t_lo (fst (tftp_step t m)) = t_lo t" "t_hi (fst (tftp_step t m)) = t_hi t"
  by (simp_all add: tftp_step_def Let_def accept_dgram_bounds split: list.splits dgram.splits)

lemma tftp_step_ok: "tftp_ok t \<Longrightarrow> tftp_ok (fst (tftp_step t m))"
  by (simp add: tftp_step_def Let_def accept_dgram_ok split: list.splits dgram.splits)

interpretation tftp_threads: chunk_thread tftp_step t_lo t_hi tftp_ok
proof (unfold_locales, goal_cases)
  case (1 t m t' m')
  then show ?case using tftp_step_bounds(1) [of t m] by simp
next
  case (2 t m t' m')
  then show ?case using tftp_step_bounds(2) [of t m] by simp
next
  case (3 t)
  then show ?case by (simp add: tftp_ok_def)
next
  case (4 t m t' m')
  then show ?case using tftp_step_ok [of t m] by simp
next
  case (5 t m t' m')
  then obtain got where "m' = blit (t_pos t) got m" "t_pos t + length got \<le> t_hi t"
    using tftp_step_store [of t m] by auto
  with 5 show ?case by simp
next
  case (6 t m t' m' i)
  then obtain got where "m' = blit (t_pos t) got m" "t_pos t + length got \<le> t_hi t"
    using tftp_step_store [of t m] by auto
  moreover have "t_lo t \<le> t_pos t" using 6(1) by (simp add: tftp_ok_def)
  ultimately show ?case using 6 by (auto simp: nth_blit)
next
  case (7 t m n)
  then show ?case using tftp_step_thread [of t n m] by simp
next
  case (8 t m n)
  then obtain got where "snd (tftp_step t m) = blit (t_pos t) got m"
    "t_pos t + length got \<le> t_hi t" "snd (tftp_step t n) = blit (t_pos t) got n"
    using tftp_step_store [of t m] by auto
  moreover have "t_lo t \<le> t_pos t" using 8(1) by (simp add: tftp_ok_def)
  ultimately show ?case using 8 by (simp add: seg_blit_inside)
qed

end
