(* ===== verification/TftpProtocol.thy ===== *)
theory TftpProtocol
  imports TftpServer TftpClient
begin

text \<open>
  The stop-and-wait protocol between the threads of \<open>tftp/server.c\<close> and \<open>tftp/client.c\<close>: a
  step relation over any number of sessions that share the server's acknowledgement queue
  and the client's \<open>file_data\<close> array, with datagrams in flight in both directions, losses
  and timeouts. Every step runs a definition of the two programs.
\<close>

section \<open>Sessions and the network\<close>

record session =
  srv :: srv_thread
  cli :: tftp_thread
  down :: "bytes list"
  up :: "string list"

record net =
  sessions :: "session list"
  mem :: bytes
  queue :: ack_state

datatype event = Ev_send | Ev_leave | Ev_recv | Ev_done | Ev_route | Ev_ack | Ev_timeout | Ev_lose_data | Ev_lose_ack

text \<open>
  One step of one session: the server thread sends its next packet or leaves the loop, the
  client thread receives a datagram, finishes, or times out, \<open>main\<close> of the server routes an
  acknowledgement to the queue, the server thread takes it, the network loses a datagram.
\<close>

inductive local_step :: "event \<Rightarrow> session \<Rightarrow> bytes \<Rightarrow> ack_state \<Rightarrow> session \<Rightarrow> bytes \<Rightarrow> ack_state \<Rightarrow> bool" where
  local_send: "send_packet True (srv x) = (s, Some d) \<Longrightarrow>
    local_step Ev_send x m q (x\<lparr>srv := s, down := down x @ [d]\<rparr>) m q"
| local_leave: "phase (srv x) = Loop_head \<Longrightarrow> send_packet True (srv x) = (s, None) \<Longrightarrow>
    local_step Ev_leave x m q (x\<lparr>srv := s\<rparr>) m q"
| local_recv: "t_status (cli x) = T_running \<Longrightarrow> 0 < t_remaining (cli x) \<Longrightarrow> down x = d # ds \<Longrightarrow>
    tftp_step ((cli x)\<lparr>t_inbox := [Dgram d True]\<rparr>) m = (c, m') \<Longrightarrow>
    local_step Ev_recv x m q
      (x\<lparr>cli := c, down := ds, up := up x @ drop (length (t_acks (cli x))) (t_acks c)\<rparr>) m' q"
| local_done: "t_status (cli x) = T_running \<Longrightarrow> t_remaining (cli x) \<le> 0 \<Longrightarrow>
    tftp_step (cli x) m = (c, m') \<Longrightarrow> local_step Ev_done x m q (x\<lparr>cli := c\<rparr>) m' q"
| local_route: "up x = a # as \<Longrightarrow>
    route_datagram fs junk_seq junk thread_ok q (peer (srv x)) alen (Some a) = Ack_routed q' \<Longrightarrow>
    local_step Ev_route x m q (x\<lparr>up := as\<rparr>) m q'"
| local_ack: "phase (srv x) = Wait_ack b \<Longrightarrow> take_ack (next_seq (srv x)) (peer (srv x)) q \<noteq> None \<Longrightarrow>
    receive_ack (srv x) q = (s, q') \<Longrightarrow> local_step Ev_ack x m q (x\<lparr>srv := s\<rparr>) m q'"
| local_timeout: "t_status (cli x) = T_running \<Longrightarrow> 0 < t_remaining (cli x) \<Longrightarrow>
    tftp_step ((cli x)\<lparr>t_inbox := [Timeout]\<rparr>) m = (c, m') \<Longrightarrow>
    local_step Ev_timeout x m q (x\<lparr>cli := c\<rparr>) m' q"
| local_lose_data: "down x = d # ds \<Longrightarrow> local_step Ev_lose_data x m q (x\<lparr>down := ds\<rparr>) m q"
| local_lose_ack: "up x = a # as \<Longrightarrow> local_step Ev_lose_ack x m q (x\<lparr>up := as\<rparr>) m q"

inductive net_step :: "nat \<Rightarrow> event \<Rightarrow> net \<Rightarrow> net \<Rightarrow> bool" where
  net_local: "i < length (sessions n) \<Longrightarrow>
    local_step e (sessions n ! i) (mem n) (queue n) x m q \<Longrightarrow>
    net_step i e n \<lparr>sessions = (sessions n)[i := x], mem = m, queue = q\<rparr>"

definition reliable :: "event \<Rightarrow> bool" where
  "reliable e \<longleftrightarrow> e \<notin> {Ev_timeout, Ev_lose_data, Ev_lose_ack}"

inductive net_run :: "(event \<Rightarrow> bool) \<Rightarrow> nat \<Rightarrow> net \<Rightarrow> net \<Rightarrow> bool" for ok where
  run_refl: "net_run ok 0 n n"
| run_step: "net_run ok k n n' \<Longrightarrow> ok e \<Longrightarrow> net_step i e n' n'' \<Longrightarrow> net_run ok (Suc k) n n''"

inductive_cases net_stepE: "net_step i e n n'"

section \<open>Opening the sessions\<close>

text \<open>
  A session starts when the GET request of a client thread has been routed to a new server
  thread. Requests that get an error reply, end the process or are malformed open none.
\<close>

definition open_session :: "file_system \<Rightarrow> string \<Rightarrow> size_t \<times> size_t \<Rightarrow> sockaddr_in \<Rightarrow> session option" where
  "open_session fs name task a =
     (case route_datagram fs 0 zero_request True \<lparr>ack_queue = [], ack_queue_size = 0\<rparr> a 16
             (Some (get_request CLIENT_BUFFER_SIZE name (fst task) (snd task))) of
        Spawn (Transfer s) \<Rightarrow> Some \<lparr>srv = s, cli = tftp_start task True True [], down = [], up = []\<rparr>
      | _ \<Rightarrow> None)"

definition open_net :: "file_system \<Rightarrow> string \<Rightarrow> (size_t \<times> size_t) list \<Rightarrow> sockaddr_in list \<Rightarrow> nat \<Rightarrow> ack_packet \<Rightarrow> net option" where
  "open_net fs name tasks addrs fsz blank =
     (case those (map2 (open_session fs name) tasks addrs) of
        None \<Rightarrow> None
      | Some xs \<Rightarrow> Some \<lparr>sessions = xs, mem = replicate fsz NUL, queue = empty_queue blank\<rparr>)"

section \<open>The invariant of a session\<close>

definition acks_for :: "sockaddr_in \<Rightarrow> ack_state \<Rightarrow> ack_packet list" where
  "acks_for a q = filter (\<lambda>p. client_addr p = a) (pending q)"

definition progress_ok :: "bytes \<Rightarrow> session \<Rightarrow> bytes \<Rightarrow> bool" where
  "progress_ok fc x m \<longleftrightarrow>
     src_bytes (srv x) = fc \<and> tftp_ok (cli x) \<and> t_hi (cli x) \<le> length fc \<and> t_hi (cli x) \<le> length m \<and>
     seg (t_lo (cli x)) (t_pos (cli x) - t_lo (cli x)) m = seg (t_lo (cli x)) (t_pos (cli x) - t_lo (cli x)) fc"

definition status_ok :: "bool \<Rightarrow> session \<Rightarrow> bool" where
  "status_ok lossy x \<longleftrightarrow>
     t_status (cli x) = T_running \<or> t_status (cli x) = T_exit 0 \<and> t_pos (cli x) = t_hi (cli x) \<or>
     lossy \<and> t_status (cli x) = T_exit 1"

text \<open>
  Where the one token of a session is: with the server, in a data packet, in an
  acknowledgement on its way, in the queue, or lost.
\<close>

datatype token = At_server | In_data | In_ack | In_queue | Lost

definition waits :: "session \<Rightarrow> nat \<Rightarrow> bool" where
  "waits x k \<longleftrightarrow> phase (srv x) = Wait_ack (k + SEQ_SIZE) \<and> 0 < k \<and> k \<le> PAYLOAD_SIZE \<and> k \<le> remaining (srv x) \<and>
     file_pos (srv x) + (remaining (srv x) - k) = t_hi (cli x)"

fun token_ok :: "token \<Rightarrow> bytes \<Rightarrow> session \<Rightarrow> ack_packet list \<Rightarrow> bool" where
  "token_ok At_server fc x ps \<longleftrightarrow> down x = [] \<and> up x = [] \<and> ps = [] \<and> file_pos (srv x) = t_pos (cli x) \<and>
     t_pos (cli x) + remaining (srv x) = t_hi (cli x) \<and>
     (phase (srv x) = Loop_head \<or> phase (srv x) = Thread_done \<and> remaining (srv x) = 0)"
| "token_ok In_data fc x ps \<longleftrightarrow> up x = [] \<and> ps = [] \<and>
     (\<exists>k. waits x k \<and> t_pos (cli x) + k = file_pos (srv x) \<and>
          down x = [data_packet (next_seq (srv x)) (seg (t_pos (cli x)) k fc)])"
| "token_ok In_ack fc x ps \<longleftrightarrow> down x = [] \<and> up x = [ack_text (next_seq (srv x))] \<and> ps = [] \<and>
     (\<exists>k. waits x k) \<and> t_pos (cli x) = file_pos (srv x)"
| "token_ok In_queue fc x ps \<longleftrightarrow> down x = [] \<and> up x = [] \<and>
     (\<exists>p. ps = [p] \<and> is_ack (next_seq (srv x)) (peer (srv x)) p) \<and>
     (\<exists>k. waits x k) \<and> t_pos (cli x) = file_pos (srv x)"
| "token_ok Lost fc x ps \<longleftrightarrow> down x = [] \<and> up x = [] \<and> ps = [] \<and>
     (\<exists>k. waits x k \<and> (t_pos (cli x) = file_pos (srv x) \<or> t_pos (cli x) + k = file_pos (srv x)))"

definition sess_ok :: "bool \<Rightarrow> bytes \<Rightarrow> session \<Rightarrow> bytes \<Rightarrow> ack_state \<Rightarrow> bool" where
  "sess_ok lossy fc x m q \<longleftrightarrow> progress_ok fc x m \<and> status_ok lossy x \<and>
     (\<exists>tok. (tok = Lost \<longrightarrow> lossy) \<and> token_ok tok fc x (acks_for (peer (srv x)) q))"


section \<open>Steps keep the invariant of their session\<close>

lemma acks_for_enqueue:
  assumes "queue_ok q"
  shows "acks_for a (enqueue_ack p q) =
    (if length (pending q) < MAX_QUEUE_SIZE \<and> client_addr p = a then acks_for a q @ [p] else acks_for a q)"
  by (simp add: acks_for_def ackq.pend_enq [OF assms])

lemma acks_for_take:
  assumes "queue_ok q" and "take_ack s a q = Some q'"
  shows "b \<noteq> a \<Longrightarrow> acks_for b q' = acks_for b q" and "length (acks_for a q) = Suc (length (acks_for a q'))"
  using ackq.tak_Some [OF assms] by (auto simp: acks_for_def is_ack_def)

lemma waits_unique: "waits x k \<Longrightarrow> waits x l \<Longrightarrow> k = l"
  by (simp add: waits_def)

lemma waits_update [simp]: "waits (x\<lparr>up := u\<rparr>) = waits x" "waits (x\<lparr>down := d\<rparr>) = waits x"
  "t_hi c = t_hi (cli x) \<Longrightarrow> waits (x\<lparr>cli := c\<rparr>) = waits x"
  by (auto simp: waits_def fun_eq_iff)

lemma phase_not_token: "phase (srv x) = Loop_head \<Longrightarrow> token_ok tok fc x ps \<Longrightarrow> tok = At_server"
  by (cases tok) (auto simp: waits_def)

lemma down_token: "down x = d # ds \<Longrightarrow> token_ok tok fc x ps \<Longrightarrow> tok = In_data"
  by (cases tok) auto

lemma up_token: "up x = a # as \<Longrightarrow> token_ok tok fc x ps \<Longrightarrow> tok = In_ack"
  by (cases tok) auto

lemma queue_token: "ps \<noteq> [] \<Longrightarrow> token_ok tok fc x ps \<Longrightarrow> tok = In_queue"
  by (cases tok) auto

lemma sess_okD:
  assumes "sess_ok lossy fc x m q"
  shows "progress_ok fc x m" "status_ok lossy x"
    and "\<exists>tok. (tok = Lost \<longrightarrow> lossy) \<and> token_ok tok fc x (acks_for (peer (srv x)) q)"
  using assms by (simp_all add: sess_ok_def)

lemma sess_okI:
  assumes "progress_ok fc x m" "status_ok lossy x" "token_ok tok fc x (acks_for (peer (srv x)) q)" "tok = Lost \<longrightarrow> lossy"
  shows "sess_ok lossy fc x m q"
  using assms by (auto simp: sess_ok_def simp del: token_ok.simps)

text \<open>What a session can still do tells where its token is.\<close>

lemma sess_token:
  assumes "sess_ok lossy fc x m q"
  shows "phase (srv x) = Loop_head \<Longrightarrow> token_ok At_server fc x (acks_for (peer (srv x)) q)"
    and "down x = d # ds \<Longrightarrow> token_ok In_data fc x (acks_for (peer (srv x)) q)"
    and "up x = a # as \<Longrightarrow> token_ok In_ack fc x (acks_for (peer (srv x)) q)"
    and "acks_for (peer (srv x)) q \<noteq> [] \<Longrightarrow> token_ok In_queue fc x (acks_for (peer (srv x)) q)"
  using sess_okD(3) [OF assms] phase_not_token down_token up_token queue_token
  by (blast+)

lemma send_keeps:
  assumes "sess_ok lossy fc x m q" and "send_packet True (srv x) = (s, Some d)"
  shows "sess_ok lossy fc (x\<lparr>srv := s, down := down x @ [d]\<rparr>) m q"
proof -
  let ?s = "srv x" and ?c = "cli x"
  have hd: "phase ?s = Loop_head" "0 < remaining ?s"
    using assms(2) by (auto simp: send_packet_def split: if_splits)
  note tok = sess_token(1) [OF assms(1) hd(1)] and pr = sess_okD(1,2) [OF assms(1)]
  have inside: "file_pos ?s + remaining ?s \<le> length (src_bytes ?s)"
    using tok pr(1) by (auto simp: progress_ok_def)
  note len = length_payload_inside [OF inside]
  have eq: "payload_at ?s = seg (t_pos ?c) (length (payload_at ?s)) fc"
    unfolding len using tok pr(1) by (auto simp: payload_at_eq progress_ok_def)
  have sd: "s = ?s\<lparr>file_pos := file_pos ?s + length (payload_at ?s), phase := Wait_ack (length (payload_at ?s) + SEQ_SIZE)\<rparr>"
    "d = data_packet (next_seq ?s) (payload_at ?s)"
    using send_packet_inside [OF hd inside] assms(2) by simp_all
  have w: "waits (x\<lparr>srv := s, down := down x @ [d]\<rparr>) (length (payload_at ?s))"
    using hd(2) tok length_payload_at [of ?s] len by (auto simp: waits_def sd PAYLOAD_SIZE_def)
  have "token_ok In_data fc (x\<lparr>srv := s, down := down x @ [d]\<rparr>) (acks_for (peer ?s) q)"
    using w tok eq by (auto simp: sd intro!: exI [of _ "length (payload_at ?s)"])
  with pr show ?thesis
    by (intro sess_okI [where tok = In_data]) (simp_all add: progress_ok_def status_ok_def sd)
qed

lemma leave_keeps:
  assumes "sess_ok lossy fc x m q" and "phase (srv x) = Loop_head" and "send_packet True (srv x) = (s, None)"
  shows "sess_ok lossy fc (x\<lparr>srv := s\<rparr>) m q"
proof -
  note tok = sess_token(1) [OF assms(1,2)] and pr = sess_okD(1,2) [OF assms(1)]
  have "remaining (srv x) = 0"
  proof (rule ccontr)
    assume "remaining (srv x) \<noteq> 0"
    then have "send_packet True (srv x) \<noteq> (s, None)"
      using tok pr(1) by (subst send_packet_inside) (auto simp: assms(2) progress_ok_def)
    with assms(3) show False by simp
  qed
  then have s: "s = (srv x)\<lparr>phase := Thread_done\<rparr>" using assms(2,3) by (simp add: send_packet_def)
  have "token_ok At_server fc (x\<lparr>srv := s\<rparr>) (acks_for (peer (srv x)) q)"
    using tok \<open>remaining (srv x) = 0\<close> by (simp add: s)
  with pr show ?thesis
    by (intro sess_okI [where tok = At_server]) (simp_all add: progress_ok_def status_ok_def s)
qed

text \<open>The datagram a client receives extends what it has stored by the next bytes of the file.\<close>

lemma recv_result:
  assumes ok: "sess_ok lossy fc x m q" and run: "t_status (cli x) = T_running" "0 < t_remaining (cli x)"
    and dn: "down x = d # ds" and k: "waits x k"
  shows "tftp_step ((cli x)\<lparr>t_inbox := [Dgram d True]\<rparr>) m =
    ((cli x)\<lparr>t_inbox := [], t_retry := 0, t_acks := t_acks (cli x) @ [ack_text (next_seq (srv x))],
       t_remaining := t_remaining (cli x) - int k, t_pos := t_pos (cli x) + k\<rparr>,
     blit (t_pos (cli x)) (seg (t_pos (cli x)) k fc) m)"
proof -
  let ?c = "cli x"
  note tok = sess_token(2) [OF ok dn] and pr = sess_okD(1) [OF ok]
  have t: "t_pos ?c + k = file_pos (srv x)" "d = data_packet (next_seq (srv x)) (seg (t_pos ?c) k fc)"
    using tok dn waits_unique [OF k] by auto
  have b: "k \<le> PAYLOAD_SIZE" "t_pos ?c + k \<le> t_hi ?c" "t_hi ?c \<le> length fc" "tftp_ok ?c"
    using k t(1) pr by (auto simp: waits_def progress_ok_def)
  then have ld: "length d = 8 + k" by (simp add: t(2) length_seg)
  then have l: "length d \<le> CLIENT_BUFFER_SIZE" "take CLIENT_BUFFER_SIZE d = d" "d \<noteq> []"
    using b(1) by (auto simp: PAYLOAD_SIZE_def CLIENT_BUFFER_SIZE_def)
  have rem: "\<not> t_remaining ?c < int k" using b(2,4) by (auto simp: tftp_ok_def)
  have seq: "bytes_size (zeroed CLIENT_BUFFER_SIZE d) = next_seq (srv x)"
    by (simp add: t(2) data_packet_def zeroed_def)
  have dr: "drop 8 d = seg (t_pos ?c) k fc" by (simp add: t(2) data_packet_def)
  have "tftp_step (?c\<lparr>t_inbox := [Dgram d True]\<rparr>) m = accept_dgram d (?c\<lparr>t_inbox := []\<rparr>) m"
    using run l(2,3) by (simp add: tftp_step_def Let_def)
  also have "\<dots> = (?c\<lparr>t_inbox := [], t_retry := 0, t_acks := t_acks ?c @ [ack_text (next_seq (srv x))],
       t_remaining := t_remaining ?c - int k, t_pos := t_pos ?c + k\<rparr>,
     blit (t_pos ?c) (seg (t_pos ?c) k fc) m)"
    using accept_dgram_cases [of "?c\<lparr>t_inbox := []\<rparr>" d m] b(4) l(1) rem by (simp add: seq dr ld Let_def)
  finally show ?thesis .
qed


lemma recv_keeps:
  assumes ok: "sess_ok lossy fc x m q" and run: "t_status (cli x) = T_running" "0 < t_remaining (cli x)"
    and dn: "down x = d # ds" and st: "tftp_step ((cli x)\<lparr>t_inbox := [Dgram d True]\<rparr>) m = (c, m')"
  shows "sess_ok lossy fc (x\<lparr>cli := c, down := ds, up := up x @ drop (length (t_acks (cli x))) (t_acks c)\<rparr>) m' q"
proof -
  let ?c = "cli x" and ?x = "x\<lparr>cli := c, down := ds, up := up x @ drop (length (t_acks (cli x))) (t_acks c)\<rparr>"
  note tok = sess_token(2) [OF ok dn] and pr = sess_okD(1) [OF ok]
  then obtain k where k: "waits x k" "t_pos ?c + k = file_pos (srv x)" by auto
  have c: "c = ?c\<lparr>t_inbox := [], t_retry := 0, t_acks := t_acks ?c @ [ack_text (next_seq (srv x))],
       t_remaining := t_remaining ?c - int k, t_pos := t_pos ?c + k\<rparr>"
    and m': "m' = blit (t_pos ?c) (seg (t_pos ?c) k fc) m"
    using recv_result [OF ok run dn k(1)] st by simp_all
  have b: "t_pos ?c + k \<le> t_hi ?c" "t_hi ?c \<le> length fc" "t_hi ?c \<le> length m" "t_lo ?c \<le> t_pos ?c" "tftp_ok ?c"
    using k pr by (auto simp: waits_def progress_ok_def tftp_ok_def)
  have "tftp_ok c" using b by (auto simp: c tftp_ok_def)
  moreover have "length m' = length m" using b by (simp add: m' length_blit length_seg)
  moreover have "seg (t_lo ?c) (t_pos ?c + k - t_lo ?c) m' = seg (t_lo ?c) (t_pos ?c + k - t_lo ?c) fc"
  proof -
    have "seg (t_lo ?c) (t_pos ?c - t_lo ?c) m' = seg (t_lo ?c) (t_pos ?c - t_lo ?c) fc"
      using pr b by (simp add: m' progress_ok_def seg_blit_disjoint)
    moreover have "seg (t_pos ?c) k m' = seg (t_pos ?c) k fc"
      using b seg_blit_same [of "t_pos ?c" "seg (t_pos ?c) k fc" m] by (simp add: m' length_seg)
    moreover have "seg (t_lo ?c) (t_pos ?c + k - t_lo ?c) xs =
      seg (t_lo ?c) (t_pos ?c - t_lo ?c) xs @ seg (t_pos ?c) k xs" for xs :: bytes
      using b(4) seg_append [of "t_lo ?c" "t_pos ?c - t_lo ?c" k xs] by simp
    ultimately show ?thesis by simp
  qed
  ultimately have "progress_ok fc ?x m'" using pr by (simp add: progress_ok_def c)
  moreover have "status_ok lossy ?x" using run by (simp add: status_ok_def c)
  moreover have "token_ok In_ack fc ?x (acks_for (peer (srv x)) q)"
    using tok k dn by (auto simp: c)
  ultimately show ?thesis by (intro sess_okI [where tok = In_ack]) simp_all
qed

lemma client_only_keeps:
  assumes "sess_ok lossy fc x m q" and "t_lo c = t_lo (cli x)" "t_hi c = t_hi (cli x)" "t_pos c = t_pos (cli x)"
    and "tftp_ok c" and "status_ok lossy (x\<lparr>cli := c\<rparr>)"
  shows "sess_ok lossy fc (x\<lparr>cli := c\<rparr>) m q"
proof -
  obtain tok where tok: "tok = Lost \<longrightarrow> lossy" "token_ok tok fc x (acks_for (peer (srv x)) q)"
    using sess_okD(3) [OF assms(1)] by blast
  have "token_ok tok fc (x\<lparr>cli := c\<rparr>) (acks_for (peer (srv x)) q)"
    using tok(2) assms(2-4) by (cases tok) simp_all
  then show ?thesis
    using sess_okD(1) [OF assms(1)] assms(2-6) tok(1)
    by (intro sess_okI [where tok = tok]) (simp_all add: progress_ok_def)
qed

lemma done_result:
  "t_status c = T_running \<Longrightarrow> t_remaining c \<le> 0 \<Longrightarrow> tftp_step c m = (c\<lparr>t_status := T_exit 0\<rparr>, m)"
  by (simp add: tftp_step_def)

lemma timeout_result:
  "t_status c = T_running \<Longrightarrow> 0 < t_remaining c \<Longrightarrow>
     tftp_step (c\<lparr>t_inbox := [Timeout]\<rparr>) m = (count_retry (c\<lparr>t_inbox := []\<rparr>), m)"
  by (simp add: tftp_step_def)

lemma count_retry_status: "t_status (count_retry c) = t_status c \<or> t_status (count_retry c) = T_exit 1"
  by (simp add: count_retry_def Let_def)

lemma done_keeps:
  assumes "sess_ok lossy fc x m q" and "t_status (cli x) = T_running" "t_remaining (cli x) \<le> 0"
  shows "sess_ok lossy fc (x\<lparr>cli := (cli x)\<lparr>t_status := T_exit 0\<rparr>\<rparr>) m q"
proof -
  have "tftp_ok (cli x)" using sess_okD(1) [OF assms(1)] by (simp add: progress_ok_def)
  then show ?thesis
    using assms by (intro client_only_keeps) (auto simp: status_ok_def tftp_ok_def)
qed

lemma timeout_keeps:
  assumes "sess_ok True fc x m q" and "t_status (cli x) = T_running"
  shows "sess_ok True fc (x\<lparr>cli := count_retry ((cli x)\<lparr>t_inbox := []\<rparr>)\<rparr>) m q"
proof -
  have "tftp_ok (cli x)" using sess_okD(1) [OF assms(1)] by (simp add: progress_ok_def)
  then show ?thesis
    using assms count_retry_status [of "(cli x)\<lparr>t_inbox := []\<rparr>"]
    by (intro client_only_keeps) (auto simp: status_ok_def)
qed


lemma route_result:
  assumes "sess_ok lossy fc x m q" and "up x = a # as"
    and "route_datagram fs junk_seq junk thread_ok q (peer (srv x)) alen (Some a) = Ack_routed q'"
  shows "as = []" "q' = enqueue_ack \<lparr>seq_num = next_seq (srv x), client_addr = peer (srv x), addr_len = alen\<rparr> q"
proof -
  have a: "a = ack_text (next_seq (srv x))" "as = []" using sess_token(3) [OF assms(1,2)] assms(2) by auto
  have "length (''ACK '' @ show_size (next_seq (srv x))) < CLIENT_BUFFER_SIZE"
    using length_show_size [of "next_seq (srv x)"] by (simp add: CLIENT_BUFFER_SIZE_def)
  note r = route_ack_text [OF this, folded ack_text_def]
  show "q' = enqueue_ack \<lparr>seq_num = next_seq (srv x), client_addr = peer (srv x), addr_len = alen\<rparr> q"
    using assms(3) unfolding a(1) r by simp
  show "as = []" by (rule a(2))
qed

lemma route_keeps:
  assumes ok: "sess_ok lossy fc x m q" and qok: "queue_ok q" and up: "up x = a # as"
    and r: "route_datagram fs junk_seq junk thread_ok q (peer (srv x)) alen (Some a) = Ack_routed q'"
    and room: "lossy \<or> length (pending q) < MAX_QUEUE_SIZE"
  shows "sess_ok lossy fc (x\<lparr>up := as\<rparr>) m q'"
proof -
  note tok = sess_token(3) [OF ok up] and res = route_result [OF ok up r]
  have pr: "progress_ok fc (x\<lparr>up := as\<rparr>) m" "status_ok lossy (x\<lparr>up := as\<rparr>)"
    using sess_okD(1,2) [OF ok] by (simp_all add: progress_ok_def status_ok_def)
  show ?thesis
  proof (cases "length (pending q) < MAX_QUEUE_SIZE")
    case True
    then have "token_ok In_queue fc (x\<lparr>up := as\<rparr>) (acks_for (peer (srv x)) q')"
      using tok by (auto simp: res acks_for_enqueue [OF qok] is_ack_def)
    with pr show ?thesis by (intro sess_okI [where tok = In_queue]) simp_all
  next
    case False
    then have "token_ok Lost fc (x\<lparr>up := as\<rparr>) (acks_for (peer (srv x)) q')"
      using tok by (auto simp: res acks_for_enqueue [OF qok])
    with pr room False show ?thesis by (intro sess_okI [where tok = Lost]) simp_all
  qed
qed

lemma ack_result:
  assumes "sess_ok lossy fc x m q" and "queue_ok q"
    and "take_ack (next_seq (srv x)) (peer (srv x)) q = Some q'"
  shows "\<exists>k. waits x k \<and> token_ok In_queue fc x (acks_for (peer (srv x)) q) \<and>
    receive_ack (srv x) q = ((srv x)\<lparr>next_seq := next_seq (srv x) + 1, remaining := remaining (srv x) - k,
      phase := Loop_head\<rparr>, q')"
proof -
  have "acks_for (peer (srv x)) q \<noteq> []" using acks_for_take(2) [OF assms(2,3)] by auto
  note tok = sess_token(4) [OF assms(1) this]
  then obtain k where k: "waits x k" by auto
  then have "receive_ack (srv x) q = ((srv x)\<lparr>next_seq := next_seq (srv x) + 1, remaining := remaining (srv x) - k,
      phase := Loop_head\<rparr>, q')"
    using receive_ack_taken [OF _ assms(3), of "k + SEQ_SIZE"] by (simp add: waits_def)
  with k tok show ?thesis by blast
qed

lemma ack_keeps:
  assumes ok: "sess_ok lossy fc x m q" and qok: "queue_ok q"
    and "take_ack (next_seq (srv x)) (peer (srv x)) q \<noteq> None" and r: "receive_ack (srv x) q = (s, q')"
  shows "sess_ok lossy fc (x\<lparr>srv := s\<rparr>) m q'"
proof -
  obtain q1 where q1: "take_ack (next_seq (srv x)) (peer (srv x)) q = Some q1" using assms(3) by blast
  from ack_result [OF ok qok this] r obtain k where k: "waits x k"
    and tok: "token_ok In_queue fc x (acks_for (peer (srv x)) q)"
    and s: "s = (srv x)\<lparr>next_seq := next_seq (srv x) + 1, remaining := remaining (srv x) - k, phase := Loop_head\<rparr>"
    "q' = q1" by auto
  have "acks_for (peer (srv x)) q' = []"
    using acks_for_take(2) [OF qok q1] tok by (auto simp: s)
  then have "token_ok At_server fc (x\<lparr>srv := s\<rparr>) (acks_for (peer (srv x)) q')"
    using tok k by (auto simp: s(1) waits_def)
  then show ?thesis
    using sess_okD(1,2) [OF ok]
    by (intro sess_okI [where tok = At_server]) (simp_all add: s(1) progress_ok_def status_ok_def)
qed

lemma lose_data_keeps:
  assumes ok: "sess_ok True fc x m q" and "down x = d # ds"
  shows "sess_ok True fc (x\<lparr>down := ds\<rparr>) m q"
proof -
  have "token_ok Lost fc (x\<lparr>down := ds\<rparr>) (acks_for (peer (srv x)) q)"
    using sess_token(2) [OF assms] assms(2) by auto
  then show ?thesis
    using sess_okD(1,2) [OF ok] by (intro sess_okI [where tok = Lost]) (simp_all add: progress_ok_def status_ok_def del: token_ok.simps)
qed

lemma lose_ack_keeps:
  assumes ok: "sess_ok True fc x m q" and "up x = a # as"
  shows "sess_ok True fc (x\<lparr>up := as\<rparr>) m q"
proof -
  have "token_ok Lost fc (x\<lparr>up := as\<rparr>) (acks_for (peer (srv x)) q)"
    using sess_token(3) [OF assms] assms(2) by auto
  then show ?thesis
    using sess_okD(1,2) [OF ok] by (intro sess_okI [where tok = Lost]) (simp_all add: progress_ok_def status_ok_def del: token_ok.simps)
qed

text \<open>Every step keeps the invariant of the session that makes it.\<close>

lemma local_keeps:
  assumes "local_step e x m q x' m' q'" and "sess_ok lossy fc x m q" and "queue_ok q"
    and "lossy \<or> reliable e \<and> (e = Ev_route \<longrightarrow> length (pending q) < MAX_QUEUE_SIZE)"
  shows "sess_ok lossy fc x' m' q'"
  using assms
proof (cases rule: local_step.cases)
  case (local_done c)
  then show ?thesis using done_result done_keeps [OF assms(2)] by simp
next
  case (local_timeout c)
  then have "lossy" using assms(4) by (simp add: reliable_def)
  with local_timeout show ?thesis using timeout_result timeout_keeps [of fc x m q] assms(2) by simp
next
  case (local_lose_data d ds)
  then have "lossy" using assms(4) by (simp add: reliable_def)
  with local_lose_data show ?thesis using lose_data_keeps [of fc x m q] assms(2) by simp
next
  case (local_lose_ack a as)
  then have "lossy" using assms(4) by (simp add: reliable_def)
  with local_lose_ack show ?thesis using lose_ack_keeps [of fc x m q] assms(2) by simp
next
  case (local_send s d)
  with assms(2) show ?thesis using send_keeps by simp
next
  case (local_leave s)
  with assms(2) show ?thesis using leave_keeps by simp
next
  case (local_recv d ds c)
  with assms(2) show ?thesis using recv_keeps by simp
next
  case (local_route a as fs junk_seq junk thread_ok alen)
  with assms show ?thesis using route_keeps [of lossy fc x m q] by blast
next
  case (local_ack b s)
  with assms show ?thesis using ack_keeps [of lossy fc x m q] by simp
qed


text \<open>What a step leaves alone: addresses, chunk bounds, other acknowledgements, other chunks.\<close>

lemma local_bounds:
  assumes "local_step e x m q x' m' q'"
  shows "peer (srv x') = peer (srv x)" "t_lo (cli x') = t_lo (cli x)" "t_hi (cli x') = t_hi (cli x)"
proof -
  have p: "send_packet True t = (s, od) \<Longrightarrow> peer s = peer t" for t s od
    by (auto simp: send_packet_def Let_def split: if_splits)
  have a: "receive_ack t q = (s, q') \<Longrightarrow> peer s = peer t" for t s
    by (auto simp: receive_ack_def Let_def split: srv_phase.splits option.splits if_splits)
  have c: "tftp_step (c\<lparr>t_inbox := evs\<rparr>) n = (c', n') \<Longrightarrow> t_lo c' = t_lo c \<and> t_hi c' = t_hi c" for c evs n c' n'
    using tftp_step_bounds [of "c\<lparr>t_inbox := evs\<rparr>" n] by simp
  have d: "tftp_step c n = (c', n') \<Longrightarrow> t_lo c' = t_lo c \<and> t_hi c' = t_hi c" for c n c' n'
    using tftp_step_bounds [of c n] by simp
  show "peer (srv x') = peer (srv x)"
    using assms by cases (simp_all add: p a)
  show "t_lo (cli x') = t_lo (cli x)" "t_hi (cli x') = t_hi (cli x)"
    using assms by (cases, simp_all add: c d)+
qed

lemma local_queue:
  assumes "local_step e x m q x' m' q'" and "sess_ok lossy fc x m q" and "queue_ok q"
  shows "queue_ok q'" "b \<noteq> peer (srv x) \<Longrightarrow> acks_for b q' = acks_for b q"
    "client_addr ` set (pending q') \<subseteq> insert (peer (srv x)) (client_addr ` set (pending q))"
proof -
  consider "q' = q" | p where "client_addr p = peer (srv x)" "q' = enqueue_ack p q"
    | s where "take_ack s (peer (srv x)) q = Some q'"
    using assms(1)
  proof cases
    case (local_route a as fs junk_seq junk thread_ok alen)
    then show ?thesis using route_result(2) [OF assms(2) local_route(4,5)] that(2) by (metis ack_packet.select_convs(2))
  next
    case (local_ack b s)
    then obtain q1 where q1: "take_ack (next_seq (srv x)) (peer (srv x)) q = Some q1" by blast
    then show ?thesis using ack_result [OF assms(2,3) q1] local_ack(6) that(3) by auto
  qed (use that(1) in simp_all)
  then have "queue_ok q' \<and> (b \<noteq> peer (srv x) \<longrightarrow> acks_for b q' = acks_for b q) \<and>
    client_addr ` set (pending q') \<subseteq> insert (peer (srv x)) (client_addr ` set (pending q))"
  proof cases
    case 1
    with assms(3) show ?thesis by auto
  next
    case 2
    then show ?thesis
      using ackq.inv_enq [OF assms(3)] by (auto simp: acks_for_enqueue [OF assms(3)] ackq.pend_enq [OF assms(3)])
  next
    case 3
    then show ?thesis
      using ackq.inv_tak [OF assms(3) 3] acks_for_take(1) [OF assms(3) 3] ackq.tak_subset [OF assms(3) 3] by auto
  qed
  then show "queue_ok q'" "b \<noteq> peer (srv x) \<Longrightarrow> acks_for b q' = acks_for b q"
    "client_addr ` set (pending q') \<subseteq> insert (peer (srv x)) (client_addr ` set (pending q))" by auto
qed

lemma local_memory:
  assumes "local_step e x m q x' m' q'" and "sess_ok lossy fc x m q"
  shows "length m' = length m" "lo + n \<le> t_lo (cli x) \<or> t_hi (cli x) \<le> lo \<Longrightarrow> lo + n \<le> length m \<Longrightarrow> seg lo n m' = seg lo n m"
proof -
  have pr: "tftp_ok (cli x)" "t_hi (cli x) \<le> length m" using sess_okD(1) [OF assms(2)] by (simp_all add: progress_ok_def)
  consider "m' = m" | c where "tftp_ok c" "t_pos c = t_pos (cli x)" "t_hi c = t_hi (cli x)" "m' = snd (tftp_step c m)"
    using assms(1)
  proof cases
    case (local_recv d ds c)
    then show ?thesis using pr(1) that(2) [of "(cli x)\<lparr>t_inbox := [Dgram d True]\<rparr>"] by simp
  next
    case (local_done c)
    then show ?thesis using done_result that(1) by simp
  next
    case (local_timeout c)
    then show ?thesis using timeout_result that(1) by simp
  qed (use that(1) in simp_all)
  then obtain got where "m' = blit (t_pos (cli x)) got m" "t_pos (cli x) + length got \<le> t_hi (cli x)"
  proof cases
    case 1
    with pr show ?thesis by (intro that [of "[]"]) (auto simp: tftp_ok_def)
  next
    case (2 c)
    then show ?thesis using tftp_step_store [of c m] pr(2) that by auto
  qed
  with pr show "length m' = length m"
    "lo + n \<le> t_lo (cli x) \<or> t_hi (cli x) \<le> lo \<Longrightarrow> lo + n \<le> length m \<Longrightarrow> seg lo n m' = seg lo n m"
    by (auto simp: tftp_ok_def length_blit seg_blit_disjoint)
qed


section \<open>The invariant of the network\<close>

definition net_ok :: "bool \<Rightarrow> bytes \<Rightarrow> net \<Rightarrow> bool" where
  "net_ok lossy fc n \<longleftrightarrow>
     distinct (map (\<lambda>x. peer (srv x)) (sessions n)) \<and> queue_ok (queue n) \<and>
     client_addr ` set (pending (queue n)) \<subseteq> (\<lambda>x. peer (srv x)) ` set (sessions n) \<and>
     (\<forall>i < length (sessions n). sess_ok lossy fc (sessions n ! i) (mem n) (queue n)) \<and>
     (\<forall>i < length (sessions n). \<forall>j < length (sessions n). i \<noteq> j \<longrightarrow>
        t_hi (cli (sessions n ! i)) \<le> t_lo (cli (sessions n ! j)) \<or>
        t_hi (cli (sessions n ! j)) \<le> t_lo (cli (sessions n ! i)))"

lemma sess_ok_frame:
  assumes "sess_ok lossy fc x m q" and "length m' = length m"
    and "\<And>lo n. lo \<ge> t_lo (cli x) \<Longrightarrow> lo + n \<le> t_hi (cli x) \<Longrightarrow> seg lo n m' = seg lo n m"
    and "acks_for (peer (srv x)) q' = acks_for (peer (srv x)) q"
  shows "sess_ok lossy fc x m' q'"
proof -
  have "progress_ok fc x m'"
    using sess_okD(1) [OF assms(1)] assms(2) assms(3) [of "t_lo (cli x)" "t_pos (cli x) - t_lo (cli x)"]
    by (auto simp: progress_ok_def tftp_ok_def)
  with sess_okD [OF assms(1)] assms(4) show ?thesis by (simp add: sess_ok_def)
qed

lemma distinct_by_filter:
  assumes "\<And>a. length (filter (\<lambda>p. f p = a) ps) \<le> 1"
  shows "distinct (map f ps)"
  using assms
proof (induction ps)
  case (Cons p ps)
  have "filter (\<lambda>r. f r = f p) ps = []" using Cons.prems [of "f p"] by simp
  then have "f p \<notin> f ` set ps" by (force simp: filter_empty_conv)
  moreover have "length (filter (\<lambda>r. f r = a) ps) \<le> 1" for a
    using Cons.prems [of a] by (simp split: if_splits)
  ultimately show ?case using Cons.IH by simp
qed simp

lemma token_one_ack: "token_ok tok fc x ps \<Longrightarrow> length ps \<le> 1"
  by (cases tok) auto

text \<open>With at most one pending acknowledgement per session, a session that sends one finds room.\<close>

lemma route_has_room:
  assumes ok: "net_ok lossy fc n" and i: "i < length (sessions n)" and up: "up (sessions n ! i) = a # as"
  shows "length (pending (queue n)) < length (sessions n)"
proof -
  let ?xs = "sessions n" and ?q = "queue n"
  let ?peers = "(\<lambda>x. peer (srv x)) ` set ?xs"
  have sess: "sess_ok lossy fc x (mem n) ?q" if "x \<in> set ?xs" for x
    using ok that by (auto simp: net_ok_def in_set_conv_nth)
  have sub: "client_addr ` set (pending ?q) \<subseteq> ?peers" using ok by (simp add: net_ok_def)
  have one: "length (acks_for b ?q) \<le> 1" for b
  proof (cases "b \<in> ?peers")
    case True
    then show ?thesis using sess_okD(3) [OF sess] token_one_ack by blast
  next
    case False
    with sub have "acks_for b ?q = []" by (force simp: acks_for_def filter_empty_conv)
    then show ?thesis by simp
  qed
  then have dist: "distinct (map client_addr (pending ?q))"
    by (intro distinct_by_filter) (simp add: acks_for_def)
  have "acks_for (peer (srv (?xs ! i))) ?q = []"
    using sess_token(3) [OF sess up] i by simp
  then have "peer (srv (?xs ! i)) \<notin> client_addr ` set (pending ?q)"
    by (auto simp: acks_for_def filter_empty_conv)
  with sub i have "client_addr ` set (pending ?q) \<subset> ?peers"
    by (metis (no_types, lifting) image_eqI nth_mem psubsetI)
  then have "card (client_addr ` set (pending ?q)) < card ?peers" by (intro psubset_card_mono) auto
  moreover have "card (client_addr ` set (pending ?q)) = length (pending ?q)"
    using distinct_card [OF dist] by simp
  moreover have "card ?peers \<le> length ?xs"
    using card_image_le [of "set ?xs" "\<lambda>x. peer (srv x)"] card_length [of ?xs] by simp
  ultimately show ?thesis by simp
qed


lemma net_step_keeps:
  assumes ok: "net_ok lossy fc n" and st: "net_step i e n n'"
    and rel: "lossy \<or> reliable e \<and> length (sessions n) \<le> MAX_QUEUE_SIZE"
  shows "net_ok lossy fc n'"
  using st
proof cases
  case (net_local x m q)
  let ?xs = "sessions n" and ?x = "sessions n ! i"
  have parts: "distinct (map (\<lambda>x. peer (srv x)) ?xs)" "queue_ok (queue n)"
    "client_addr ` set (pending (queue n)) \<subseteq> (\<lambda>x. peer (srv x)) ` set ?xs"
    using ok by (simp_all add: net_ok_def)
  have sess: "sess_ok lossy fc (?xs ! j) (mem n) (queue n)" if "j < length ?xs" for j
    using ok that by (simp add: net_ok_def)
  have room: "e = Ev_route \<Longrightarrow> length (pending (queue n)) < length ?xs"
    using net_local(3) route_has_room [OF ok net_local(2)] by (cases rule: local_step.cases) auto
  note b = local_bounds [OF net_local(3)] and q = local_queue [OF net_local(3) sess [OF net_local(2)] parts(2)]
    and m = local_memory [OF net_local(3) sess [OF net_local(2)]]
  have "sess_ok lossy fc x m q"
    using rel room by (intro local_keeps [OF net_local(3) sess [OF net_local(2)] parts(2)]) auto
  moreover have "sess_ok lossy fc (?xs ! j) m q" if j: "j < length ?xs" "j \<noteq> i" for j
  proof (rule sess_ok_frame [OF sess [OF j(1)] m(1)])
    have dis: "t_hi (cli (?xs ! j)) \<le> t_lo (cli ?x) \<or> t_hi (cli ?x) \<le> t_lo (cli (?xs ! j))"
      using ok j net_local(2) by (simp add: net_ok_def)
    have "t_hi (cli (?xs ! j)) \<le> length (mem n)"
      using sess_okD(1) [OF sess [OF j(1)]] by (simp add: progress_ok_def)
    with dis show "seg lo k m = seg lo k (mem n)" if "t_lo (cli (?xs ! j)) \<le> lo" "lo + k \<le> t_hi (cli (?xs ! j))" for lo k
      using that by (intro m(2)) auto
    have "peer (srv (?xs ! j)) \<noteq> peer (srv ?x)"
      using parts(1) j net_local(2) by (simp add: distinct_conv_nth)
    then show "acks_for (peer (srv (?xs ! j))) q = acks_for (peer (srv (?xs ! j))) (queue n)" by (rule q(2))
  qed
  ultimately have sess': "sess_ok lossy fc (?xs[i := x] ! j) m q" if "j < length ?xs" for j
    using that net_local(2) by (cases "j = i") simp_all
  have peers: "map (\<lambda>x. peer (srv x)) (?xs[i := x]) = map (\<lambda>x. peer (srv x)) ?xs"
    using b(1) net_local(2) by (simp add: map_update list_update_same_conv)
  then have peers': "(\<lambda>x. peer (srv x)) ` set (?xs[i := x]) = (\<lambda>x. peer (srv x)) ` set ?xs"
    by (metis list.set_map)
  have "client_addr ` set (pending q) \<subseteq> (\<lambda>x. peer (srv x)) ` set ?xs"
    using q(3) parts(3) net_local(2) by force
  moreover have "t_lo (cli (?xs[i := x] ! j)) = t_lo (cli (?xs ! j)) \<and> t_hi (cli (?xs[i := x] ! j)) = t_hi (cli (?xs ! j))"
    if "j < length ?xs" for j using that b net_local(2) by (cases "j = i") simp_all
  ultimately show ?thesis
    using ok sess' q(1) parts(1) peers peers' by (simp add: net_local(1) net_ok_def)
qed

lemma net_step_length: "net_step i e n n' \<Longrightarrow> length (sessions n') = length (sessions n)"
  by (auto elim: net_stepE)

lemma net_run_keeps:
  assumes "net_run allowed k n n'" and "net_ok lossy fc n"
    and "lossy \<or> (\<forall>e. allowed e \<longrightarrow> reliable e) \<and> length (sessions n) \<le> MAX_QUEUE_SIZE"
  shows "net_ok lossy fc n' \<and> length (sessions n') = length (sessions n)"
  using assms
proof (induction rule: net_run.induct)
  case (run_step k n n' e i n'')
  then have IH: "net_ok lossy fc n'" "length (sessions n') = length (sessions n)" by simp_all
  have "lossy \<or> reliable e \<and> length (sessions n') \<le> MAX_QUEUE_SIZE" using run_step.prems(2) run_step.hyps(2) IH(2) by auto
  from net_step_keeps [OF IH(1) run_step.hyps(3) this] IH(2) net_step_length [OF run_step.hyps(3)] show ?case by simp
qed simp

section \<open>The start\<close>

lemma route_get:
  assumes "plain_name name" and "fs name = Some fc" and "length fc < 2 ^ 63"
    and "unat (fst task) < length fc" "unat (fst task) + unat (snd task) \<le> length fc"
  shows "open_session fs name task a =
    Some \<lparr>srv = \<lparr>peer = a, src_bytes = fc, file_pos = unat (fst task), remaining = unat (snd task), next_seq = 0,
                 phase = Loop_head\<rparr>,
          cli = tftp_start task True True [], down = [], up = []\<rparr>"
proof -
  let ?d = "get_request CLIENT_BUFFER_SIZE name (fst task) (snd task)"
  have n: "302 \<le> CLIENT_BUFFER_SIZE" by (simp add: CLIENT_BUFFER_SIZE_def)
  note rec = get_request_received [OF assms(1) n, of "fst task" "snd task"]
  have nn: "NUL \<notin> set ?d" using rec(1) NUL_notin_cstr by metis
  have "cstr (zeroed TFTP_BUFFER_SIZE ?d) = ?d" using nn by (rule cstr_zeroed)
  moreover have "\<not> strncmp_eq 3 ?d ''ACK''"
    unfolding get_request_text [OF assms(1) n] by (simp add: strncmp_eq_def cstr_def NUL_def)
  moreover have "length ?d < TFTP_BUFFER_SIZE" using rec(3) by (simp add: TFTP_BUFFER_SIZE_def CLIENT_BUFFER_SIZE_def)
  moreover have "unat (tftp_file_size fc) = length fc"
    using assms(3) by (simp add: tftp_file_size_def unat_of_nat_size)
  moreover have "unat (fst task + snd task) = unat (fst task) + unat (snd task)"
    using assms(3,5) by (intro unat_add_size_no_wrap) simp
  ultimately show ?thesis
    using assms(2,4,5)
    by (simp add: open_session_def route_datagram_def Let_def scan_get_request [OF assms(1) n] handle_request_def
      word_le_nat_alt word_less_nat_alt)
qed


definition init_session :: "bytes \<Rightarrow> (size_t \<times> size_t) \<times> sockaddr_in \<Rightarrow> session" where
  "init_session fc ta =
     \<lparr>srv = \<lparr>peer = snd ta, src_bytes = fc, file_pos = unat (fst (fst ta)), remaining = unat (snd (fst ta)), next_seq = 0,
             phase = Loop_head\<rparr>,
      cli = tftp_start (fst ta) True True [], down = [], up = []\<rparr>"

lemma those_map: "(\<And>x. x \<in> set xs \<Longrightarrow> f x = Some (g x)) \<Longrightarrow> those (map f xs) = Some (map g xs)"
  by (induction xs) auto

lemma open_net_eq:
  assumes "plain_name name" and "fs name = Some fc" and "length fc < 2 ^ 63" and fits: "fits k (tftp_file_size fc)"
  shows "open_net fs name (tasks_of k (tftp_file_size fc)) addrs fsz blank =
    Some \<lparr>sessions = map (init_session fc) (zip (tasks_of k (tftp_file_size fc)) addrs),
          mem = replicate fsz NUL, queue = empty_queue blank\<rparr>"
proof -
  let ?ts = "tasks_of k (tftp_file_size fc)"
  have sz: "unat (tftp_file_size fc) = length fc"
    using assms(3) by (simp add: tftp_file_size_def unat_of_nat_size)
  have "open_session fs name t a = Some (init_session fc (t, a))" if "(t, a) \<in> set (zip ?ts addrs)" for t a
  proof -
    have "(fst t, snd t) \<in> set ?ts" using that by (auto dest: set_zip_leftD)
    from tasks_of_bound [OF fits this] sz show ?thesis
      using route_get [of name fs fc t a] assms(1-3) by (simp add: init_session_def)
  qed
  then have "those (map2 (open_session fs name) ?ts addrs) = Some (map (init_session fc) (zip ?ts addrs))"
    by (intro those_map) auto
  then show ?thesis by (simp add: open_net_def)
qed

lemma init_session_ok:
  assumes "unat (fst t) + unat (snd t) \<le> length fc" and "length fc < 2 ^ 63" and "acks_for a q = []"
  shows "sess_ok lossy fc (init_session fc (t, a)) (replicate (length fc) NUL) q"
proof (rule sess_okI [where tok = At_server])
  have "to_ssize (snd t) = int (unat (snd t))" using assms(1,2) by (intro to_ssize_small) simp
  then show "progress_ok fc (init_session fc (t, a)) (replicate (length fc) NUL)"
    using assms(1) by (simp add: progress_ok_def init_session_def tftp_start_def tftp_ok_def seg_def)
qed (use assms(3) in \<open>simp_all add: init_session_def tftp_start_def status_ok_def\<close>)

lemma open_net_ok:
  assumes "length fc < 2 ^ 63" and fits: "fits k (tftp_file_size fc)" and "distinct addrs"
    and n: "n = \<lparr>sessions = map (init_session fc) (zip (tasks_of k (tftp_file_size fc)) addrs),
                mem = replicate (length fc) NUL, queue = empty_queue blank\<rparr>"
  shows "net_ok lossy fc n"
proof -
  let ?ts = "tasks_of k (tftp_file_size fc)"
  let ?za = "zip ?ts addrs"
  have sz: "unat (tftp_file_size fc) = length fc"
    using assms(1) by (simp add: tftp_file_size_def unat_of_nat_size)
  have sess: "sess_ok lossy fc (init_session fc (?ts ! i, addrs ! i)) (replicate (length fc) NUL) (empty_queue blank)"
    if "i < length ?ts" for i
    using tasks_of_nth_bound [OF fits that] sz assms(1) by (intro init_session_ok) (simp_all add: acks_for_def)
  have "map (\<lambda>x. peer (srv x)) (map (init_session fc) ?za) = map snd ?za" by (simp add: init_session_def)
  also have "distinct \<dots>" using assms(3) by (simp add: map_snd_zip_take)
  finally have "distinct (map (\<lambda>x. peer (srv x)) (sessions n))" by (simp add: n)
  moreover have "t_hi (cli (init_session fc (?ts ! i, a))) \<le> t_lo (cli (init_session fc (?ts ! j, b))) \<or>
      t_hi (cli (init_session fc (?ts ! j, b))) \<le> t_lo (cli (init_session fc (?ts ! i, a)))"
    if "i < length ?ts" "j < length ?ts" "i \<noteq> j" for i j a b
    using tasks_of_disjoint [OF fits that] by (simp add: init_session_def tftp_start_def)
  ultimately show ?thesis
    using sess by (simp add: net_ok_def n)
qed

section \<open>Progress\<close>

definition finished :: "net \<Rightarrow> bool" where
  "finished n \<longleftrightarrow> (\<forall>x \<in> set (sessions n). phase (srv x) = Thread_done \<and> t_status (cli x) = T_exit 0)"

definition sess_measure :: "session \<Rightarrow> ack_state \<Rightarrow> nat" where
  "sess_measure x q = 5 * remaining (srv x) + (if phase (srv x) = Loop_head then 4 else 0) +
     3 * length (down x) + 2 * length (up x) + length (acks_for (peer (srv x)) q) +
     (if t_status (cli x) = T_running then 1 else 0)"

text \<open>Without losses and with room in the queue, every step brings its session closer to the end.\<close>

lemma local_decreases:
  assumes "local_step e x m q x' m' q'" and ok: "sess_ok False fc x m q" and qok: "queue_ok q"
    and "reliable e" and room: "e = Ev_route \<longrightarrow> length (pending q) < MAX_QUEUE_SIZE"
  shows "sess_measure x' q' < sess_measure x q"
  using assms(1)
proof cases
  case (local_send s d)
  then have "s = (srv x)\<lparr>file_pos := file_pos s, phase := phase s\<rparr> \<and> phase (srv x) = Loop_head \<and> phase s \<noteq> Loop_head"
    by (auto simp: send_packet_def Let_def split: if_splits)
  moreover from this have "remaining s = remaining (srv x)" "peer s = peer (srv x)"
    by (metis srv_thread.select_convs srv_thread.surjective srv_thread.update_convs)+
  ultimately show ?thesis using local_send by (simp add: sess_measure_def)
next
  case (local_leave s)
  then have "phase s \<noteq> Loop_head \<and> remaining s = remaining (srv x) \<and> peer s = peer (srv x)"
    by (auto simp: send_packet_def Let_def split: if_splits)
  with local_leave show ?thesis by (simp add: sess_measure_def)
next
  case (local_recv d ds c)
  then obtain k where k: "waits x k" using sess_token(2) [OF ok local_recv(6)] by auto
  show ?thesis
    using local_recv recv_result [OF ok local_recv(4,5,6) k] by (auto simp: sess_measure_def)
next
  case (local_done c)
  then show ?thesis using done_result [OF local_done(4,5), of m] by (auto simp: sess_measure_def)
next
  case (local_route a as fs junk_seq junk thread_ok alen)
  then show ?thesis
    using route_result [OF ok local_route(4,5)] room by (simp add: sess_measure_def acks_for_enqueue [OF qok])
next
  case (local_ack b s)
  then obtain q1 where q1: "take_ack (next_seq (srv x)) (peer (srv x)) q = Some q1" by blast
  from ack_result [OF ok qok q1] obtain k where "waits x k"
    "receive_ack (srv x) q = ((srv x)\<lparr>next_seq := next_seq (srv x) + 1, remaining := remaining (srv x) - k,
      phase := Loop_head\<rparr>, q1)" by blast
  with local_ack acks_for_take(2) [OF qok q1] show ?thesis by (auto simp: sess_measure_def waits_def)
qed (use assms(4) in \<open>simp_all add: reliable_def\<close>)


lemma local_can_step:
  assumes ok: "sess_ok False fc x m q" and qok: "queue_ok q"
    and "\<not> (phase (srv x) = Thread_done \<and> t_status (cli x) = T_exit 0)"
  shows "\<exists>e x' m' q'. reliable e \<and> local_step e x m q x' m' q'"
proof -
  obtain tok where "tok \<noteq> Lost" and tok: "token_ok tok fc x (acks_for (peer (srv x)) q)"
    using sess_okD(3) [OF ok] by blast
  note pr = sess_okD(1) [OF ok, unfolded progress_ok_def tftp_ok_def] and st = sess_okD(2) [OF ok, unfolded status_ok_def]
  show ?thesis
  proof (cases tok)
    case At_server
    show ?thesis
    proof (cases "phase (srv x) = Loop_head")
      case True
      obtain s od where "send_packet True (srv x) = (s, od)" by fastforce
      then show ?thesis
        using local_send [of x s] local_leave [OF True] by (cases od) (fastforce simp: reliable_def)+
    next
      case False
      then have "t_status (cli x) = T_running" "t_remaining (cli x) \<le> 0"
        using tok st pr assms(3) At_server by auto
      then show ?thesis using local_done [of x m] by (fastforce simp: reliable_def done_result)
    qed
  next
    case In_data
    then obtain k where k: "waits x k" "t_pos (cli x) + k = file_pos (srv x)"
      and dn: "down x = [data_packet (next_seq (srv x)) (seg (t_pos (cli x)) k fc)]" using tok by auto
    then have "t_status (cli x) = T_running" "0 < t_remaining (cli x)" using st pr by (auto simp: waits_def)
    moreover obtain c m' where
      "tftp_step ((cli x)\<lparr>t_inbox := [Dgram (data_packet (next_seq (srv x)) (seg (t_pos (cli x)) k fc)) True]\<rparr>) m = (c, m')"
      by fastforce
    ultimately show ?thesis using local_recv [OF _ _ dn] by (fastforce simp: reliable_def)
  next
    case In_ack
    then have up: "up x = [ack_text (next_seq (srv x))]" using tok by simp
    have "length (''ACK '' @ show_size (next_seq (srv x))) < CLIENT_BUFFER_SIZE"
      using length_show_size [of "next_seq (srv x)"] by (simp add: CLIENT_BUFFER_SIZE_def)
    from route_ack_text [OF this, folded ack_text_def] show ?thesis
      using local_route [OF up] by (fastforce simp: reliable_def)
  next
    case In_queue
    then obtain p k where p: "p \<in> set (acks_for (peer (srv x)) q)" "is_ack (next_seq (srv x)) (peer (srv x)) p"
      and k: "waits x k" using tok by auto
    then have "take_ack (next_seq (srv x)) (peer (srv x)) q \<noteq> None"
      by (auto simp: ackq.tak_None [OF qok] acks_for_def)
    moreover obtain s q' where "receive_ack (srv x) q = (s, q')" by fastforce
    ultimately show ?thesis
      using local_ack [of x "k + SEQ_SIZE" q s q' m] k by (fastforce simp: reliable_def waits_def)
  qed (use \<open>tok \<noteq> Lost\<close> in simp)
qed

lemma net_can_step:
  assumes "net_ok False fc n" and "\<not> finished n"
  shows "\<exists>i e n'. reliable e \<and> net_step i e n n'"
proof -
  obtain i where i: "i < length (sessions n)"
    "\<not> (phase (srv (sessions n ! i)) = Thread_done \<and> t_status (cli (sessions n ! i)) = T_exit 0)"
    using assms(2) by (auto simp: finished_def in_set_conv_nth)
  then have "sess_ok False fc (sessions n ! i) (mem n) (queue n)" "queue_ok (queue n)"
    using assms(1) by (simp_all add: net_ok_def)
  from local_can_step [OF this i(2)] net_local [OF i(1)] show ?thesis by blast
qed

definition net_measure :: "net \<Rightarrow> nat" where
  "net_measure n = (\<Sum>i < length (sessions n). sess_measure (sessions n ! i) (queue n))"

lemma net_decreases:
  assumes ok: "net_ok False fc n" and st: "net_step i e n n'" and "reliable e" "length (sessions n) \<le> MAX_QUEUE_SIZE"
  shows "net_measure n' < net_measure n"
  using st
proof cases
  case (net_local x m q)
  let ?xs = "sessions n"
  have sess: "sess_ok False fc (?xs ! i) (mem n) (queue n)" "queue_ok (queue n)"
    using ok net_local(2) by (simp_all add: net_ok_def)
  have "e = Ev_route \<longrightarrow> length (pending (queue n)) < length ?xs"
    using net_local(3) route_has_room [OF ok net_local(2)] by (cases rule: local_step.cases) auto
  with assms(4) have less: "sess_measure x q < sess_measure (?xs ! i) (queue n)"
    by (intro local_decreases [OF net_local(3) sess assms(3)]) auto
  have same: "sess_measure (?xs ! j) q = sess_measure (?xs ! j) (queue n)" if "j < length ?xs" "j \<noteq> i" for j
  proof -
    have "peer (srv (?xs ! j)) \<noteq> peer (srv (?xs ! i))"
      using ok that net_local(2) by (simp add: net_ok_def distinct_conv_nth)
    from local_queue(2) [OF net_local(3) sess this] show ?thesis by (simp add: sess_measure_def)
  qed
  have "(\<Sum>j < length ?xs. sess_measure (?xs[i := x] ! j) q) < (\<Sum>j < length ?xs. sess_measure (?xs ! j) (queue n))"
  proof (rule sum_strict_mono_ex1)
    show "\<forall>j \<in> {..<length ?xs}. sess_measure (?xs[i := x] ! j) q \<le> sess_measure (?xs ! j) (queue n)"
      using less same net_local(2) by (simp add: nth_list_update less_imp_le)
    show "\<exists>j \<in> {..<length ?xs}. sess_measure (?xs[i := x] ! j) q < sess_measure (?xs ! j) (queue n)"
      using less net_local(2) by (intro bexI [of _ i]) simp_all
  qed simp
  then show ?thesis by (simp add: net_local(1) net_measure_def)
qed

lemma net_run_decreases:
  assumes "net_run reliable k n n'" and "net_ok False fc n" and "length (sessions n) \<le> MAX_QUEUE_SIZE"
  shows "net_measure n' + k \<le> net_measure n"
  using assms
proof (induction rule: net_run.induct)
  case (run_step k n n' e i n'')
  have ok: "net_ok False fc n'" "length (sessions n') = length (sessions n)"
    using net_run_keeps [OF run_step.hyps(1) run_step.prems(1)] run_step.prems(2) by simp_all
  from net_decreases [OF ok(1) run_step.hyps(3,2)] run_step.IH [OF run_step.prems] ok(2) run_step.prems(2)
  show ?case by simp
qed simp


section \<open>A lost datagram\<close>

text \<open>Once the token is lost, neither side of the session moves any more.\<close>

lemma local_stuck:
  assumes st: "local_step e x m q x' m' q'" and ok: "sess_ok True fc x m q" and qok: "queue_ok q"
    and lost: "token_ok Lost fc x (acks_for (peer (srv x)) q)"
  shows "srv x' = srv x" "t_pos (cli x') = t_pos (cli x)" "token_ok Lost fc x' (acks_for (peer (srv x)) q')"
proof -
  obtain k where wait: "phase (srv x) = Wait_ack (k + SEQ_SIZE)" using lost by (auto simp: waits_def)
  have no_ack: "take_ack (next_seq (srv x)) (peer (srv x)) q = None"
    using lost by (auto simp: ackq.tak_None [OF qok] acks_for_def filter_empty_conv is_ack_def)
  have "\<exists>c. x' = x\<lparr>cli := c\<rparr> \<and> t_pos c = t_pos (cli x) \<and> t_hi c = t_hi (cli x) \<and> q' = q"
    using st
  proof cases
    case (local_send s d)
    then show ?thesis using wait by (simp add: send_packet_def)
  next
    case (local_done c)
    then show ?thesis using done_result [OF local_done(4,5), of m] by auto
  next
    case (local_timeout c)
    then show ?thesis using timeout_result [OF local_timeout(4,5), of m] by auto
  qed (use lost wait no_ack in simp_all)
  then obtain c where c: "x' = x\<lparr>cli := c\<rparr>" "t_pos c = t_pos (cli x)" "t_hi c = t_hi (cli x)" "q' = q" by blast
  show "srv x' = srv x" "t_pos (cli x') = t_pos (cli x)" by (simp_all add: c)
  show "token_ok Lost fc x' (acks_for (peer (srv x)) q')" using lost c by simp
qed

lemma net_run_stuck:
  assumes "net_run any k n n'" and "net_ok True fc n" and i: "i < length (sessions n)"
    and lost: "token_ok Lost fc (sessions n ! i) (acks_for (peer (srv (sessions n ! i))) (queue n))"
  shows "srv (sessions n' ! i) = srv (sessions n ! i) \<and> t_pos (cli (sessions n' ! i)) = t_pos (cli (sessions n ! i)) \<and>
    token_ok Lost fc (sessions n' ! i) (acks_for (peer (srv (sessions n' ! i))) (queue n'))"
  using assms
proof (induction rule: net_run.induct)
  case (run_step k n n' e j n'')
  note IH = run_step.IH [OF run_step.prems]
  have ok: "net_ok True fc n'" "length (sessions n') = length (sessions n)"
    using net_run_keeps [OF run_step.hyps(1) run_step.prems(1)] by simp_all
  from run_step.hyps(3) show ?case
  proof cases
    case (net_local x m q)
    have sess: "sess_ok True fc (sessions n' ! j) (mem n') (queue n')" "queue_ok (queue n')"
      using ok net_local(2) by (simp_all add: net_ok_def)
    show ?thesis
    proof (cases "j = i")
      case True
      then have "token_ok Lost fc (sessions n' ! j) (acks_for (peer (srv (sessions n' ! j))) (queue n'))"
        using IH unfolding True by blast
      from local_stuck [OF net_local(3) sess this] IH True net_local(2) show ?thesis
        by (simp add: net_local(1) del: token_ok.simps)
    next
      case False
      have "peer (srv (sessions n' ! i)) \<noteq> peer (srv (sessions n' ! j))"
        using ok False run_step.prems(2) net_local(2) by (simp add: net_ok_def distinct_conv_nth)
      from local_queue(2) [OF net_local(3) sess this] IH False show ?thesis
        by (auto simp: net_local(1) simp del: token_ok.simps)
    qed
  qed
qed (simp del: token_ok.simps)

lemma lost_after:
  assumes "net_ok True fc n" and "net_step i e n n'" and "e = Ev_lose_data \<or> e = Ev_lose_ack \<or>
    e = Ev_route \<and> length (pending (queue n)) = MAX_QUEUE_SIZE"
  shows "token_ok Lost fc (sessions n' ! i) (acks_for (peer (srv (sessions n' ! i))) (queue n')) \<and> i < length (sessions n')"
  using assms(2)
proof cases
  case (net_local x m q)
  let ?x = "sessions n ! i"
  have sess: "sess_ok True fc ?x (mem n) (queue n)" "queue_ok (queue n)"
    using assms(1) net_local(2) by (simp_all add: net_ok_def)
  have "token_ok Lost fc x (acks_for (peer (srv x)) q)"
    using net_local(3)
  proof cases
    case (local_lose_data d ds)
    then show ?thesis using sess_token(2) [OF sess(1) local_lose_data(5)] by auto
  next
    case (local_lose_ack a as)
    then show ?thesis using sess_token(3) [OF sess(1) local_lose_ack(5)] by auto
  next
    case (local_route a as fs junk_seq junk thread_ok alen)
    then show ?thesis
      using sess_token(3) [OF sess(1) local_route(4)] route_result [OF sess(1) local_route(4,5)] assms(3)
      by (auto simp: acks_for_enqueue [OF sess(2)])
  qed (use assms(3) in simp_all)
  with net_local(1,2) show ?thesis by simp
qed


section \<open>Runs from the start\<close>

lemma net_run_bounds:
  assumes "net_run allowed k n n'" and "net_ok True fc n" and "i < length (sessions n)"
  shows "t_lo (cli (sessions n' ! i)) = t_lo (cli (sessions n ! i)) \<and>
    t_hi (cli (sessions n' ! i)) = t_hi (cli (sessions n ! i)) \<and> length (mem n') = length (mem n)"
  using assms
proof (induction rule: net_run.induct)
  case (run_step k n n' e j n'')
  note IH = run_step.IH [OF run_step.prems]
  have ok: "net_ok True fc n'" using net_run_keeps [OF run_step.hyps(1) run_step.prems(1)] by simp
  from run_step.hyps(3) show ?case
  proof cases
    case (net_local x m q)
    then have "sess_ok True fc (sessions n' ! j) (mem n') (queue n')" using ok by (simp add: net_ok_def)
    from local_memory(1) [OF net_local(3) this] local_bounds [OF net_local(3)] IH net_local(2)
    show ?thesis by (cases "j = i") (simp_all add: net_local(1))
  qed
qed simp

lemma sess_ok_lossy: "sess_ok False fc x m q \<Longrightarrow> sess_ok True fc x m q"
  by (auto simp: sess_ok_def status_ok_def simp del: token_ok.simps)

lemma net_ok_lossy: "net_ok False fc n \<Longrightarrow> net_ok True fc n"
  by (simp add: net_ok_def sess_ok_lossy)

lemma maximal_run:
  assumes "net_ok False fc n" and "length (sessions n) \<le> MAX_QUEUE_SIZE"
  shows "\<exists>k n'. net_run reliable k n n' \<and> (\<forall>i e n''. reliable e \<longrightarrow> \<not> net_step i e n' n'')"
proof (rule ccontr)
  assume no: "\<not> ?thesis"
  have "\<exists>n'. net_run reliable k n n'" for k
  proof (induction k)
    case 0
    then show ?case using run_refl by blast
  next
    case (Suc k)
    then show ?case using no run_step by blast
  qed
  then obtain n' where "net_run reliable (Suc (net_measure n)) n n'" by blast
  from net_run_decreases [OF this assms] show False by simp
qed

lemma seg_sizes:
  assumes "fits k fsz" and "length f = unat fsz"
  shows "(\<Sum>(off, sz) \<leftarrow> tasks_of k fsz. unat sz) = length f"
proof -
  have "length f = length (concat (map (\<lambda>(off, sz). seg (unat off) (unat sz) f) (tasks_of k fsz)))"
    using tasks_of_tile [OF assms] by simp
  also have "\<dots> = (\<Sum>t \<leftarrow> tasks_of k fsz. length (case t of (off, sz) \<Rightarrow> seg (unat off) (unat sz) f))"
    by (simp add: length_concat comp_def)
  also have "\<dots> = (\<Sum>(off, sz) \<leftarrow> tasks_of k fsz. unat sz)"
    using tasks_of_bound(2) [OF assms(1)] assms(2)
    by (intro arg_cong [where f = sum_list] map_cong refl) (auto simp: length_seg)
  finally show ?thesis by simp
qed

text \<open>A started network: its invariant, its bounds, its measure.\<close>

definition started :: "bytes \<Rightarrow> int \<Rightarrow> sockaddr_in list \<Rightarrow> net \<Rightarrow> bool" where
  "started fc k addrs n \<longleftrightarrow> (\<exists>fs name blank. plain_name name \<and> fs name = Some fc \<and> length fc < 2 ^ 63 \<and>
     fits k (tftp_file_size fc) \<and> distinct addrs \<and> length addrs = nat k \<and>
     open_net fs name (tasks_of k (tftp_file_size fc)) addrs (length fc) blank = Some n)"

lemma started_net:
  assumes "started fc k addrs n"
  shows "net_ok lossy fc n" "length (sessions n) = nat k" "length (mem n) = length fc"
    "fits k (tftp_file_size fc)" "unat (tftp_file_size fc) = length fc"
    "i < nat k \<Longrightarrow> sessions n ! i = init_session fc (tasks_of k (tftp_file_size fc) ! i, addrs ! i)"
proof -
  let ?ts = "tasks_of k (tftp_file_size fc)"
  from assms obtain fs name blank where h: "plain_name name" "fs name = Some fc" "length fc < 2 ^ 63"
    "distinct addrs" "length addrs = nat k" and fits: "fits k (tftp_file_size fc)"
    and n: "open_net fs name ?ts addrs (length fc) blank = Some n"
    unfolding started_def by blast
  have eq: "n = \<lparr>sessions = map (init_session fc) (zip ?ts addrs), mem = replicate (length fc) NUL, queue = empty_queue blank\<rparr>"
    using open_net_eq [of name fs fc k addrs "length fc" blank] h(1-3) fits n by simp
  note len = length_tasks_of [OF fits]
  show "net_ok lossy fc n" using open_net_ok [OF h(3) fits h(4) eq] .
  show "length (sessions n) = nat k" "length (mem n) = length fc"
    "i < nat k \<Longrightarrow> sessions n ! i = init_session fc (?ts ! i, addrs ! i)"
    using len h(5) by (simp_all add: eq)
  show "fits k (tftp_file_size fc)" by (rule fits)
  show "unat (tftp_file_size fc) = length fc" using h(3) by (simp add: tftp_file_size_def unat_of_nat_size)
qed


lemma started_measure:
  assumes "started fc k addrs n"
  shows "net_measure n = 5 * length fc + 5 * nat k"
proof -
  note st = started_net [OF assms]
  let ?ts = "tasks_of k (tftp_file_size fc)"
  have pend: "pending (queue n) = []"
    using assms unfolding started_def by (auto simp: open_net_def split: option.splits)
  have "net_measure n = (\<Sum>i < nat k. 5 * unat (snd (?ts ! i)) + 5)"
    using st(2,6) pend unfolding net_measure_def
    by (intro sum.cong) (simp_all add: sess_measure_def init_session_def tftp_start_def acks_for_def)
  also have "\<dots> = 5 * (\<Sum>i < nat k. unat (snd (?ts ! i))) + 5 * nat k"
    by (simp add: sum.distrib sum_distrib_left)
  also have "(\<Sum>i < nat k. unat (snd (?ts ! i))) = (\<Sum>(off, sz) \<leftarrow> ?ts. unat sz)"
    by (simp add: sum_list_sum_nth length_tasks_of [OF st(4)] case_prod_beta atLeast0LessThan)
  finally show ?thesis using seg_sizes [OF st(4), of fc] st(5) by simp
qed

lemma finished_memory:
  assumes st: "started fc k addrs n" and run: "net_run allowed steps n n'" and fin: "finished n'"
  shows "mem n' = fc"
proof (rule tasks_of_assemble [OF started_net(4) [OF st]])
  note s = started_net [OF st]
  let ?ts = "tasks_of k (tftp_file_size fc)"
  have k: "0 < nat k" using s(4) by (simp add: fits_def)
  have ok: "net_ok True fc n'" "length (sessions n') = nat k"
    using net_run_keeps [OF run s(1) [of True]] s(2) by simp_all
  show "length fc = unat (tftp_file_size fc)" using s(5) by simp
  show "length (mem n') = unat (tftp_file_size fc)"
    using net_run_bounds [OF run s(1), of 0] s(2,3,5) k by simp
  fix off sz assume "(off, sz) \<in> set ?ts"
  then obtain i where i: "i < nat k" "?ts ! i = (off, sz)"
    using length_tasks_of [OF s(4)] by (auto simp: in_set_conv_nth)
  let ?c = "cli (sessions n' ! i)"
  have b: "t_lo ?c = unat off" "t_hi ?c = unat off + unat sz"
    using net_run_bounds [OF run s(1), of i] s(2,6) i by (simp_all add: init_session_def tftp_start_def)
  have x: "sess_ok True fc (sessions n' ! i) (mem n') (queue n')" using ok i(1) by (simp add: net_ok_def)
  have "t_status ?c = T_exit 0" using fin ok(2) i(1) by (simp add: finished_def)
  then have "t_pos ?c = t_hi ?c" using sess_okD(2) [OF x] by (simp add: status_ok_def)
  with sess_okD(1) [OF x] b show "seg (unat off) (unat sz) (mem n') = seg (unat off) (unat sz) fc"
    by (simp add: progress_ok_def)
qed

section \<open>A concrete network\<close>

text \<open>Two client sockets that differ in their port, and a file of two bytes in two chunks.\<close>

definition port_addr :: "16 word \<Rightarrow> sockaddr_in" where
  "port_addr p = \<lparr>sin_family = 2, sin_port = p, sin_addr = 0, sin_zero = 0\<rparr>"

definition demo_net :: net where
  "demo_net = \<lparr>sessions = map (init_session ''AB'') (zip (tasks_of 2 2) [port_addr 1, port_addr 2]), mem = replicate (length ''AB'') NUL,
     queue = empty_queue \<lparr>seq_num = 0, client_addr = port_addr 0, addr_len = 0\<rparr>\<rparr>"

lemma demo_started: "started ''AB'' 2 [port_addr 1, port_addr 2] demo_net"
proof -
  let ?fs = "[''f'' \<mapsto> ''AB''] :: file_system"
  have n: "plain_name ''f''" by (simp add: plain_name_def is_word_def isspace_def NUL_def)
  have sz: "tftp_file_size ''AB'' = 2" by (simp add: tftp_file_size_def)
  have f: "fits 2 (tftp_file_size ''AB'')" by (simp add: sz fits_def)
  have "open_net ?fs ''f'' (tasks_of 2 (tftp_file_size ''AB'')) [port_addr 1, port_addr 2] (length ''AB'')
      \<lparr>seq_num = 0, client_addr = port_addr 0, addr_len = 0\<rparr> = Some demo_net"
    using open_net_eq [of "''f''" ?fs "''AB''" 2] n f by (simp add: demo_net_def sz)
  with n f show ?thesis
    unfolding started_def by (intro exI [of _ ?fs] exI [of _ "''f''"]) (auto simp: port_addr_def)
qed

lemma demo_tasks: "tasks_of 2 2 = [(0, 1), (1, 1)]"
  by (simp add: tasks_of_def task_offset_def task_size_def chunk_size_for_def to_size_def upt_rec numeral_2_eq_2)

lemma demo_send:
  "\<exists>n. net_step 0 Ev_send demo_net n \<and> (\<exists>d. down (sessions n ! 0) = [d]) \<and> 0 < length (sessions n) \<and>
     cli (sessions n ! 0) = cli (sessions demo_net ! 0)"
proof -
  let ?x = "sessions demo_net ! 0"
  have x: "?x = init_session ''AB'' ((0, 1), port_addr 1)" "length (sessions demo_net) = 2"
    by (simp_all add: demo_net_def demo_tasks)
  have "send_packet True (srv ?x) = ((srv ?x)\<lparr>file_pos := file_pos (srv ?x) + length (payload_at (srv ?x)),
     phase := Wait_ack (length (payload_at (srv ?x)) + SEQ_SIZE)\<rparr>, Some (data_packet (next_seq (srv ?x)) (payload_at (srv ?x))))"
    by (rule send_packet_inside) (simp_all add: x init_session_def)
  from net_local [OF _ local_send [OF this, of "mem demo_net" "queue demo_net"]] x
  show ?thesis by (intro exI conjI) (assumption | simp add: init_session_def)+
qed

section \<open>Properties\<close>

text \<open>
  C1. Concurrent sessions complete. With at most five sessions on one server, and as long
  as no datagram is lost and no timeout fires, every interleaving of the server threads,
  the receiving loop of the server and the client threads makes at most
  \<open>5 * length fc + 5 * k\<close> steps, and an execution that can go no further has ended with
  every thread successful and the client's array equal to the file. In particular no
  acknowledgement is dropped by the queue and no session deadlocks.
\<close>

theorem tftp_sessions_complete:
  assumes "started fc k addrs n" and "k \<le> 5" and "net_run reliable steps n n'"
  shows "steps \<le> 5 * length fc + 5 * nat k \<and>
    ((\<forall>i e n''. reliable e \<longrightarrow> \<not> net_step i e n' n'') \<longrightarrow> finished n' \<and> mem n' = fc)"
proof -
  note s = started_net [OF assms(1)]
  have k: "length (sessions n) \<le> MAX_QUEUE_SIZE" using s(2) assms(2) by (simp add: MAX_QUEUE_SIZE_def)
  have "net_ok False fc n'" using net_run_keeps [OF assms(3) s(1)] k by simp
  moreover have "steps \<le> 5 * length fc + 5 * nat k"
    using net_run_decreases [OF assms(3) s(1) k] started_measure [OF assms(1)] by simp
  ultimately show ?thesis
    using net_can_step finished_memory [OF assms(1,3)] by blast
qed

theorem tftp_sessions_complete_witness:
  "\<exists>steps n'. net_run reliable steps demo_net n' \<and> steps \<le> 20 \<and> finished n' \<and> mem n' = ''AB''"
proof -
  have "length (sessions demo_net) \<le> MAX_QUEUE_SIZE" using started_net(2) [OF demo_started] by (simp add: MAX_QUEUE_SIZE_def)
  from maximal_run [OF started_net(1) [OF demo_started] this]
  obtain steps n' where r: "net_run reliable steps demo_net n'" "\<forall>i e n''. reliable e \<longrightarrow> \<not> net_step i e n' n''" by blast
  have "steps \<le> 20 \<and> finished n' \<and> mem n' = ''AB''"
    using tftp_sessions_complete [OF demo_started _ r(1)] r(2) by simp
  with r(1) show ?thesis by blast
qed

text \<open>
  C3. Safety of every session under losses, timeouts and any interleaving: what a client
  thread has stored is a prefix of its chunk of the file, a thread that reports success
  has stored the whole chunk, and a thread only ever ends with success or failure, never
  in the undefined \<open>memcpy\<close>.
\<close>

theorem tftp_stored_prefix:
  assumes "started fc k addrs n" and "net_run (\<lambda>e. True) steps n n'" and "i < nat k"
  shows "let c = cli (sessions n' ! i)
    in seg (t_lo c) (t_pos c - t_lo c) (mem n') = seg (t_lo c) (t_pos c - t_lo c) fc \<and>
       (t_status c = T_exit 0 \<and> t_pos c = t_hi c \<or> t_status c = T_running \<or> t_status c = T_exit 1)"
proof -
  note s = started_net [OF assms(1)]
  have "net_ok True fc n'" "i < length (sessions n')" using net_run_keeps [OF assms(2) s(1) [of True]] s(2) assms(3) by simp_all
  then have "sess_ok True fc (sessions n' ! i) (mem n') (queue n')" by (simp add: net_ok_def)
  from sess_okD(1,2) [OF this] show ?thesis by (auto simp: Let_def progress_ok_def status_ok_def)
qed

theorem tftp_stored_prefix_witness:
  "\<exists>n. net_run (\<lambda>e. True) 1 demo_net n \<and> seg 0 (t_pos (cli (sessions n ! 0)) - t_lo (cli (sessions n ! 0))) (mem n) =
     seg 0 (t_pos (cli (sessions n ! 0)) - t_lo (cli (sessions n ! 0))) ''AB''"
proof -
  obtain n where n: "net_step 0 Ev_send demo_net n" using demo_send by blast
  have r: "net_run (\<lambda>e. True) 1 demo_net n" using run_step [OF run_refl _ n] by simp
  have "t_lo (cli (sessions n ! 0)) = 0"
    using net_run_bounds [OF r started_net(1) [OF demo_started], of 0] started_net(2) [OF demo_started] started_net(6) [OF demo_started, of 0]
    by (simp add: init_session_def tftp_start_def tftp_file_size_def demo_tasks)
  with r tftp_stored_prefix [OF demo_started r, of 0] show ?thesis by (auto simp: Let_def)
qed

text \<open>
  C19. There is no retransmission: after one data packet or acknowledgement of a session is
  lost, or the full queue drops the acknowledgement, the server thread waits for ever in
  the same state, the client stores nothing more, and unless it already had all of its
  chunk it never reports success.
\<close>

theorem tftp_loss_is_final:
  assumes "started fc k addrs n" and "net_run (\<lambda>e. True) steps n n1" and "net_step i e n1 n2"
    and "e = Ev_lose_data \<or> e = Ev_lose_ack \<or> e = Ev_route \<and> length (pending (queue n1)) = MAX_QUEUE_SIZE"
    and "net_run (\<lambda>e. True) steps' n2 n3"
  shows "srv (sessions n3 ! i) = srv (sessions n2 ! i) \<and> t_pos (cli (sessions n3 ! i)) = t_pos (cli (sessions n2 ! i)) \<and>
    (t_pos (cli (sessions n2 ! i)) < t_hi (cli (sessions n2 ! i)) \<longrightarrow> t_status (cli (sessions n3 ! i)) \<noteq> T_exit 0)"
proof -
  have n1: "net_ok True fc n1" using net_run_keeps [OF assms(2) started_net(1) [OF assms(1)]] by simp
  have n2: "net_ok True fc n2" using net_step_keeps [OF n1 assms(3)] by simp
  note lost = lost_after [OF n1 assms(3,4)]
  have n3: "net_ok True fc n3" "length (sessions n3) = length (sessions n2)" using net_run_keeps [OF assms(5) n2] by simp_all
  note stuck = net_run_stuck [OF assms(5) n2 conjunct2 [OF lost] conjunct1 [OF lost]]
  have "sess_ok True fc (sessions n3 ! i) (mem n3) (queue n3)" using n3 lost by (simp add: net_ok_def)
  from sess_okD(2) [OF this] net_run_bounds [OF assms(5) n2 conjunct2 [OF lost]] stuck show ?thesis
    by (auto simp: status_ok_def)
qed


theorem tftp_loss_is_final_witness:
  "\<exists>n2. net_run (\<lambda>e. True) 2 demo_net n2 \<and>
     (\<forall>steps n3. net_run (\<lambda>e. True) steps n2 n3 \<longrightarrow> t_status (cli (sessions n3 ! 0)) \<noteq> T_exit 0)"
proof -
  obtain n1 d where n1: "net_step 0 Ev_send demo_net n1" "down (sessions n1 ! 0) = [d]" "0 < length (sessions n1)"
    "cli (sessions n1 ! 0) = cli (sessions demo_net ! 0)" using demo_send by blast
  let ?n2 = "\<lparr>sessions = (sessions n1)[0 := (sessions n1 ! 0)\<lparr>down := []\<rparr>], mem = mem n1, queue = queue n1\<rparr>"
  have lose: "net_step 0 Ev_lose_data n1 ?n2" using net_local [OF n1(3) local_lose_data [OF n1(2)]] .
  have r1: "net_run (\<lambda>e. True) 1 demo_net n1" using run_step [OF run_refl _ n1(1)] by simp
  have pos: "t_pos (cli (sessions ?n2 ! 0)) < t_hi (cli (sessions ?n2 ! 0))"
    using n1(3,4) by (simp add: demo_net_def demo_tasks init_session_def tftp_start_def)
  have "\<forall>steps n3. net_run (\<lambda>e. True) steps ?n2 n3 \<longrightarrow> t_status (cli (sessions n3 ! 0)) \<noteq> T_exit 0"
    using tftp_loss_is_final [OF demo_started r1 lose] pos by blast
  moreover have "net_run (\<lambda>e. True) 2 demo_net ?n2" using run_step [OF r1 _ lose] by (simp add: numeral_2_eq_2)
  ultimately show ?thesis by blast
qed

end
