(* ===== verification/TftpTransfer.thy ===== *)
theory TftpTransfer
  imports TftpProtocol
begin

text \<open>
  Properties of the parts of the UDP programs outside the lossless protocol: the threads of
  \<open>tftp/client.c\<close> under arbitrary datagrams and schedules, their timeouts and undefined
  corner, and the requests that end or derail \<open>tftp/server.c\<close>.
\<close>

section \<open>Threads of a plan\<close>

lemma tftp_start_chunk [simp]:
  "t_lo (tftp_start task s w evs) = unat (fst task)"
  "t_hi (tftp_start task s w evs) = unat (fst task) + unat (snd task)"
  by (simp_all add: tftp_start_def)

lemma tftp_start_ok: "unat (snd task) < 2 ^ 63 \<Longrightarrow> tftp_ok (tftp_start task s w evs)"
  by (simp add: tftp_start_def tftp_ok_def to_ssize_small)

abbreviation tftp_thread_list :: "(size_t \<times> size_t) list \<Rightarrow> (bool \<times> bool \<times> dgram list) list \<Rightarrow> tftp_thread list" where
  "tftp_thread_list tasks envs \<equiv> map2 (\<lambda>task (s, w, evs). tftp_start task s w evs) tasks envs"

lemma tftp_threads_apart:
  assumes "fits n fsz" and "unat fsz < 2 ^ 63" and "length envs = length (tasks_of n fsz)"
  shows "tftp_threads.apart (tftp_thread_list (tasks_of n fsz) envs) (unat fsz)"
proof -
  have "tftp_ok (tftp_start (tasks_of n fsz ! i) s w evs)" if "i < length (tasks_of n fsz)" for i s w evs
    using tasks_of_nth_bound [OF assms(1) that] assms(2) by (intro tftp_start_ok) linarith
  then show ?thesis
    unfolding tftp_threads.apart_def
    using assms(3) tasks_of_nth_bound [OF assms(1)] tasks_of_disjoint [OF assms(1)] by (simp add: case_prod_beta)
qed

lemma solo_add: "solo step (a + b) t m = (case solo step a t m of (t', m') \<Rightarrow> solo step b t' m')"
  by (induction a arbitrary: t m) (auto split: prod.splits)

text \<open>Timeouts before anything arrives: five are survived, the sixth ends the thread.\<close>

lemma solo_timeouts:
  assumes "t_status t = T_running" and "0 < t_remaining t" and "t_retry t + k \<le> MAX_RETRIES"
    and "t_inbox t = replicate k Timeout @ evs"
  shows "solo tftp_step k t m = (t\<lparr>t_retry := t_retry t + k, t_inbox := evs\<rparr>, m)"
  using assms
proof (induction k arbitrary: t)
  case (Suc k)
  have "tftp_step t m = (t\<lparr>t_inbox := replicate k Timeout @ evs, t_retry := Suc (t_retry t)\<rparr>, m)"
    using Suc.prems by (simp add: tftp_step_def count_retry_def)
  with Suc.IH [of "t\<lparr>t_inbox := replicate k Timeout @ evs, t_retry := Suc (t_retry t)\<rparr>"] Suc.prems show ?case
    by simp
qed simp

text \<open>
  Thread \<open>k\<close> run by itself, for as many iterations as the schedule gives it: it asks server \<open>k\<close>
  modulo the number of servers for its chunk and meets what the network holds for it.
\<close>

definition tftp_alone ::
  "(string \<times> nat) list \<Rightarrow> (nat \<Rightarrow> string \<Rightarrow> int \<Rightarrow> string \<Rightarrow> bool \<times> bool \<times> dgram list) \<Rightarrow> string \<Rightarrow> size_t \<Rightarrow>
     (size_t \<times> size_t) list \<Rightarrow> nat list \<Rightarrow> nat \<Rightarrow> tftp_thread \<times> bytes" where
  "tftp_alone es envs f fsz tasks sched k =
     (case (tasks ! k, es ! (k mod length es)) of ((off, sz), (h, p)) \<Rightarrow>
        (case envs k h (int p) (get_request CLIENT_BUFFER_SIZE f off sz) of (s, w, evs) \<Rightarrow>
           solo tftp_step (count_list sched k) (tftp_start (off, sz) s w evs) (replicate (unat fsz) NUL)))"

lemma process_end_stays: "process_end t = Some e \<Longrightarrow> tftp_step t n = (t, n)"
  by (simp add: process_end_def tftp_step_def split: tftp_status.splits)

lemma process_end_start [simp]: "process_end (tftp_start task s w evs) = None"
  by (simp add: process_end_def tftp_start_def)

text \<open>
  The outcome of a process whose threads, one at a time, would end as \<open>alone k\<close>: the end of
  the process by one of them, or all of them and their chunks.
\<close>

abbreviation outcome_as_alone ::
  "(nat \<Rightarrow> tftp_thread \<times> bytes) \<Rightarrow> size_t \<Rightarrow> (size_t \<times> size_t) list \<Rightarrow> main_error + tftp_thread list \<times> bytes \<Rightarrow> bool" where
  "outcome_as_alone alone fsz tasks r \<equiv>
     (case r of
        Inl e \<Rightarrow> \<exists>k < length tasks. process_end (fst (alone k)) = Some e
      | Inr (ts, m) \<Rightarrow> length m = unat fsz \<and> length ts = length tasks \<and>
          (\<forall>k < length tasks. process_end (fst (alone k)) = None \<and> ts ! k = fst (alone k) \<and>
             (case tasks ! k of (off, sz) \<Rightarrow> seg (unat off) (unat sz) m = seg (unat off) (unat sz) (snd (alone k)))))"

lemma tftp_process_as_alone:
  assumes "tftp_threads.apart (tftp_thread_list tasks es) (unat fsz)" and "length es = length tasks"
    and "\<And>k. k < length tasks \<Longrightarrow> alone k = solo tftp_step (count_list sched k) (tftp_thread_list tasks es ! k) (replicate (unat fsz) NUL)"
  shows "outcome_as_alone alone fsz tasks (run_process tftp_step process_end sched (tftp_thread_list tasks es) (replicate (unat fsz) NUL))"
proof -
  let ?m = "replicate (unat fsz) NUL" and ?ts = "tftp_thread_list tasks es"
  let ?r = "run_threads tftp_step sched ?ts ?m"
  have ap: "tftp_threads.apart ?ts (length ?m)" using assms(1) by simp
  have k: "fst ?r ! k = fst (alone k)"
    "(case tasks ! k of (off, sz) \<Rightarrow> seg (unat off) (unat sz) (snd ?r) = seg (unat off) (unat sz) (snd (alone k)))"
    if "k < length tasks" for k
  proof -
    obtain off sz s w evs where e: "tasks ! k = (off, sz)" "es ! k = (s, w, evs)" by (metis prod.exhaust)
    then have th: "?ts ! k = tftp_start (off, sz) s w evs" "k < length ?ts" using that assms(2) by simp_all
    from tftp_threads.schedule_independent [OF ap th(2), of sched]
    show "fst ?r ! k = fst (alone k)"
      "(case tasks ! k of (off, sz) \<Rightarrow> seg (unat off) (unat sz) (snd ?r) = seg (unat off) (unat sz) (snd (alone k)))"
      unfolding assms(3) [OF that] th(1) e tftp_threads.chunk_def by simp_all
  qed
  have start: "process_end (?ts ! j) = None" if "j < length ?ts" for j
    using that by (simp add: case_prod_beta)
  have "(\<exists>e j. run_process tftp_step process_end sched ?ts ?m = Inl e \<and> j < length ?ts \<and> process_end (fst ?r ! j) = Some e) \<or>
    run_process tftp_step process_end sched ?ts ?m = Inr ?r \<and> (\<forall>j < length ?ts. process_end (fst ?r ! j) = None)"
    by (rule run_process_threads) (fact process_end_stays start)+
  then show ?thesis
  proof (elim disjE exE conjE)
    fix e j assume "run_process tftp_step process_end sched ?ts ?m = Inl e" "j < length ?ts" "process_end (fst ?r ! j) = Some e"
    then show ?thesis using k(1) by auto
  next
    assume r: "run_process tftp_step process_end sched ?ts ?m = Inr ?r" and none: "\<forall>j < length ?ts. process_end (fst ?r ! j) = None"
    have "process_end (fst (alone j)) = None" if "j < length tasks" for j
      using none that assms(2) unfolding k(1) [OF that, symmetric] by simp
    then show ?thesis
      unfolding r using k tftp_threads.length_run [OF ap, of sched] assms(2) length_run_threads [of tftp_step sched ?ts ?m] by (cases ?r) auto
  qed
qed

text \<open>
  From the reply to CHECK on: whatever arrives, the process ends as its threads, each alone,
  would.
\<close>

lemma tftp_download_independent:
  assumes "0 < num" and "num \<le> INT_MAX" and "fsz \<noteq> 0" and "unat fsz < 2 ^ 63"
    and "plan_chunks num fsz = Inr tasks" and "length (env_of tasks) = length tasks" and "\<forall>i < length tasks. created i"
    and "\<And>k. k < length tasks \<Longrightarrow>
      alone k = solo tftp_step (count_list sched k) (tftp_thread_list tasks (env_of tasks) ! k) (replicate (unat fsz) NUL)"
  shows "outcome_as_alone alone fsz tasks
    (tftp_download num True junk created (Some (ok_reply TFTP_BUFFER_SIZE fsz)) env_of sched)"
proof -
  let ?n = "adjust_connections num fsz"
  have fits: "fits ?n fsz" using adjust_fits [OF assms(1-3)] .
  have tasks: "tasks = tasks_of ?n fsz" using plan_chunks_eq [OF assms(1-3)] assms(5) by simp
  have ap: "tftp_threads.apart (tftp_thread_list tasks (env_of tasks)) (unat fsz)"
    using tftp_threads_apart [OF fits assms(4), of "env_of tasks"] assms(6) tasks by simp
  have r: "ok_reply TFTP_BUFFER_SIZE fsz = ''OK '' @ show_size fsz"
    unfolding ok_reply_def using length_show_size [of fsz] by (intro snprintf_id) (simp add: TFTP_BUFFER_SIZE_def)
  have "cstr (zeroed CLIENT_BUFFER_SIZE (''OK '' @ show_size fsz)) = ''OK '' @ show_size fsz"
    by (rule cstr_zeroed) simp
  moreover have "take CLIENT_BUFFER_SIZE (''OK '' @ show_size fsz) = ''OK '' @ show_size fsz"
    using length_show_size [of fsz] by (intro take_all) (simp add: CLIENT_BUFFER_SIZE_def)
  moreover have "scan_ok junk (''OK '' @ show_size fsz) = fsz"
    using scan_ok_reply [of TFTP_BUFFER_SIZE junk fsz] unfolding r by (simp add: TFTP_BUFFER_SIZE_def)
  moreover have "find (\<lambda>i. \<not> created i) [0..<length tasks] = None" using assms(7) by (simp add: find_None_iff)
  ultimately have "tftp_download num True junk created (Some (ok_reply TFTP_BUFFER_SIZE fsz)) env_of sched =
      run_process tftp_step process_end sched (tftp_thread_list tasks (env_of tasks)) (replicate (unat fsz) NUL)"
    using assms(5) unfolding r by (simp add: tftp_download_def del: append_Cons)
  then show ?thesis
    using tftp_process_as_alone [OF ap assms(6), of alone sched] assms(8) by simp
qed

section \<open>Properties\<close>

text \<open>
  C6. The download threads of the UDP client do not interfere. The client is started with a
  list of servers and a positive number of connections, the first server answers the CHECK
  request with the size of the file, and every thread is created. Whatever datagrams then
  arrive (well-formed or not) and however the threads are scheduled, one of two things
  happens. If some thread, run alone for its share of the schedule, ends the process (by
  \<open>exit\<close> after a failed \<open>setsockopt\<close>, or by the undefined \<open>memcpy\<close> of a datagram of fewer than
  8 bytes), then the process ends that way, and no file is written. Otherwise thread \<open>k\<close>, which
  asks server \<open>k\<close> modulo the number of servers for its chunk, ends in the state, and the \<open>k\<close>-th
  chunk of the array holds the bytes, that the thread run alone would have produced; the
  array keeps its size.
\<close>

theorem tftp_client_independent:
  assumes "files info = Some (concat (map server_line es))" and "es \<noteq> []" and "length es \<le> 10"
    and "\<forall>(h, p) \<in> set es. is_word h \<and> length h < 256 \<and> p \<le> 65535"
    and "0 < n" and "n \<le> 2147483647" and "fsz \<noteq> 0" and "unat fsz < 2 ^ 63" and "0 \<le> sock"
    and "(case hd es of (h, p) \<Rightarrow> ask h (int p) (check_request CLIENT_BUFFER_SIZE f) = (True, Some (ok_reply TFTP_BUFFER_SIZE fsz)))"
    and "plan_chunks (int n) fsz = Inr tasks" and "\<forall>i < length tasks. created i"
  shows "case tftp_main files junk_port junk sock created ask envs sched [info, show_nat n, f] of
      Inl e \<Rightarrow> \<exists>k < length tasks. process_end (fst (tftp_alone es envs f fsz tasks sched k)) = Some e
    | Inr (ts, m) \<Rightarrow> length m = unat fsz \<and> length ts = length tasks \<and>
        (\<forall>k < length tasks. process_end (fst (tftp_alone es envs f fsz tasks sched k)) = None \<and>
           ts ! k = fst (tftp_alone es envs f fsz tasks sched k) \<and>
           (case tasks ! k of (off, sz) \<Rightarrow>
              seg (unat off) (unat sz) m = seg (unat off) (unat sz) (snd (tftp_alone es envs f fsz tasks sched k))))"
proof -
  let ?servers = "map (\<lambda>(h, p). (h, int p)) es" and ?m = "replicate (unat fsz) NUL"
  let ?env_of = "\<lambda>tasks. thread_envs envs (download_tasks ?servers f tasks)"
  have start: "client_start files junk_port [info, show_nat n, f] = Inr (?servers, int n, f)"
    using assms(1-4,6) by (intro client_start_lines) auto
  obtain h0 p0 where hd: "hd es = (h0, p0)" by fastforce
  note e0 = first_server [OF assms(2) hd]
  have "p0 \<le> 65535" using e0(1) assms(4) by auto
  with assms(9,10) hd e0(2) have main: "tftp_main files junk_port junk sock created ask envs sched [info, show_nat n, f] =
      tftp_download (int n) True junk created (Some (ok_reply TFTP_BUFFER_SIZE fsz)) ?env_of sched"
    unfolding tftp_main_def start by (simp add: wire_port_small Let_def)
  have num: "0 < int n" "int n \<le> INT_MAX" "length (?env_of tasks) = length tasks"
    using assms(5,6) by (simp_all add: INT_MAX_def thread_envs_def)
  have alone: "tftp_alone es envs f fsz tasks sched k = solo tftp_step (count_list sched k) (tftp_thread_list tasks (?env_of tasks) ! k) ?m"
    if k: "k < length tasks" for k
  proof -
    obtain h p where e: "es ! (k mod length es) = (h, p)" by fastforce
    then have "(h, p) \<in> set es" using server_of_list [OF assms(2)] by metis
    then have "p \<le> 65535" using assms(4) by auto
    then have "?env_of tasks ! k = envs k h (int p) (get_request CLIENT_BUFFER_SIZE f (fst (tasks ! k)) (snd (tasks ! k)))"
      using nth_download_tasks [OF k assms(2) e, of f] k by (simp add: thread_envs_def wire_port_small task_request_def)
    then show ?thesis using k num(3) e by (simp add: tftp_alone_def case_prod_beta)
  qed
  from tftp_download_independent [where env_of = ?env_of, OF num(1,2) assms(7,8,11) num(3) assms(12) alone, of junk]
  show ?thesis unfolding main .
qed

theorem tftp_client_independent_witness:
  "(case tftp_main [''info'' \<mapsto> server_line (''10.0.0.1'', 69)] 0 0 3 (\<lambda>i. True) (\<lambda>h p req. (True, Some (ok_reply TFTP_BUFFER_SIZE 5)))
      (\<lambda>k h p req. (True, True, if k = 0 then [Timeout, Dgram (data_packet 0 ''he'') True] else [Dgram (data_packet 0 ''llo'') True]))
      [1, 0, 0] [''info'', show_nat 2, ''a''] of
      Inl e \<Rightarrow> False
    | Inr (ts, m) \<Rightarrow> length m = 5 \<and> seg 0 2 m = ''he'' \<and> seg 2 3 m = ''llo'')"
proof -
  let ?envs = "\<lambda>k (h :: string) (p :: int) (req :: string).
    (True, True, if k = (0 :: nat) then [Timeout, Dgram (data_packet 0 ''he'') True] else [Dgram (data_packet 0 ''llo'') True])"
  have plan: "plan_chunks (int 2) 5 = Inr [(0, 2), (2, 3)]" by code_simp
  have alone: "process_end (fst (tftp_alone [(''10.0.0.1'', 69)] ?envs ''a'' 5 [(0, 2), (2, 3)] [1, 0, 0] 0)) = None"
    "process_end (fst (tftp_alone [(''10.0.0.1'', 69)] ?envs ''a'' 5 [(0, 2), (2, 3)] [1, 0, 0] 1)) = None"
    "seg 0 2 (snd (tftp_alone [(''10.0.0.1'', 69)] ?envs ''a'' 5 [(0, 2), (2, 3)] [1, 0, 0] 0)) = ''he''"
    "seg 2 3 (snd (tftp_alone [(''10.0.0.1'', 69)] ?envs ''a'' 5 [(0, 2), (2, 3)] [1, 0, 0] 1)) = ''llo''"
    by code_simp+
  have all: "(\<forall>k < length [a, b]. P k) \<longleftrightarrow> P 0 \<and> P 1" "(\<exists>k < length [a, b]. P k) \<longleftrightarrow> P 0 \<or> P 1" for a b :: "size_t \<times> size_t" and P
    by (auto simp: less_Suc_eq)
  from tftp_client_independent [where files = "[''info'' \<mapsto> server_line (''10.0.0.1'', 69)]" and info = "''info''" and f = "''a''"
      and es = "[(''10.0.0.1'', 69)]" and sock = 3 and ask = "\<lambda>h p req. (True, Some (ok_reply TFTP_BUFFER_SIZE 5))"
      and envs = ?envs and created = "\<lambda>i. True" and sched = "[1, 0, 0]", OF _ _ _ _ _ _ _ _ _ _ plan, of 0 0]
  show ?thesis unfolding all using alone
    by (simp add: is_word_def isspace_def NUL_def split: sum.splits prod.splits)
qed

text \<open>
  C23. Timeouts of a client thread: up to five in a row change nothing but the retry count,
  the sixth ends the thread with failure, and nothing is stored.
\<close>

theorem tftp_six_timeouts:
  assumes "t_status t = T_running" and "0 < t_remaining t" and "t_retry t = 0"
    and "t_inbox t = replicate 6 Timeout @ evs"
  shows "solo tftp_step 5 t m = (t\<lparr>t_retry := 5, t_inbox := Timeout # evs\<rparr>, m) \<and>
    solo tftp_step 6 t m = (t\<lparr>t_retry := 6, t_inbox := evs, t_status := T_exit 1\<rparr>, m)"
proof -
  have "t_inbox t = replicate 5 Timeout @ Timeout # evs" using assms(4) by (simp add: numeral_eq_Suc)
  then have five: "solo tftp_step 5 t m = (t\<lparr>t_retry := 5, t_inbox := Timeout # evs\<rparr>, m)"
    using solo_timeouts [OF assms(1,2), of 5 "Timeout # evs" m] assms(3) by (simp add: MAX_RETRIES_def)
  have "solo tftp_step (5 + 1) t m = (t\<lparr>t_retry := 6, t_inbox := evs, t_status := T_exit 1\<rparr>, m)"
    unfolding solo_add five using assms(1,2)
    by (simp add: tftp_step_def count_retry_def Let_def MAX_RETRIES_def)
  with five show ?thesis by simp
qed

theorem tftp_six_timeouts_witness:
  "t_status (fst (solo tftp_step 6 (tftp_start (0, 4) True True (replicate 6 Timeout)) (replicate 4 NUL))) = T_exit 1"
  using tftp_six_timeouts [of "tftp_start (0, 4) True True (replicate 6 Timeout)" "[]" "replicate 4 NUL"]
  by (simp add: tftp_start_def to_ssize_def)

text \<open>
  C26. A datagram of one to seven bytes, from anyone who can reach the client's port, makes
  the payload size negative; both bounds checks accept it and the thread calls \<open>memcpy\<close>
  with that size converted to \<open>size_t\<close>.
\<close>

theorem tftp_short_datagram_undefined:
  assumes "tftp_ok t" and "t_status t = T_running" and "0 < t_remaining t"
    and "t_inbox t = Dgram d True # evs" and "d \<noteq> []" and "length d < 8"
  shows "t_status (fst (tftp_step t m)) = Memcpy_overflow"
proof -
  have d: "take CLIENT_BUFFER_SIZE d = d" "length d \<le> CLIENT_BUFFER_SIZE" using assms(6) by (simp_all add: CLIENT_BUFFER_SIZE_def)
  have "tftp_step t m = accept_dgram d (t\<lparr>t_inbox := evs\<rparr>) m"
    using assms(2-5) d by (simp add: tftp_step_def Let_def)
  then show ?thesis
    using accept_dgram_cases [of "t\<lparr>t_inbox := evs\<rparr>" d m] assms d by (simp add: Let_def)
qed

theorem tftp_short_datagram_undefined_witness:
  "t_status (fst (tftp_step (tftp_start (0, 4) True True [Dgram ''hi'' True]) (replicate 4 NUL))) = Memcpy_overflow"
  using tftp_short_datagram_undefined [of "tftp_start (0, 4) True True [Dgram ''hi'' True]" "''hi''" "[]" "replicate 4 NUL"]
  by (simp add: tftp_start_ok) (simp add: tftp_start_def to_ssize_def)

text \<open>
  C36. The client never looks at the sequence number: a data packet delivered twice is
  stored twice, one copy after the other, and both copies are acknowledged.
\<close>

theorem tftp_duplicate_stored_twice:
  assumes "tftp_ok t" and "t_status t = T_running" and "0 < t_remaining t"
    and "t_inbox t = [Dgram (data_packet s p) True, Dgram (data_packet s p) True]"
    and "p \<noteq> []" and "length p \<le> PAYLOAD_SIZE" and "2 * length p \<le> t_hi t - t_pos t" and "t_hi t \<le> length m"
  shows "case solo tftp_step 2 t m of (t', m') \<Rightarrow>
    seg (t_pos t) (2 * length p) m' = p @ p \<and> t_status t' = T_running \<and> t_acks t' = t_acks t @ [ack_text s, ack_text s]"
proof -
  let ?d = "data_packet s p"
  have d: "take CLIENT_BUFFER_SIZE ?d = ?d" "length ?d \<le> CLIENT_BUFFER_SIZE" "?d \<noteq> []"
    "bytes_size (zeroed CLIENT_BUFFER_SIZE ?d) = s" "drop 8 ?d = p"
    using assms(5,6) by (auto simp: CLIENT_BUFFER_SIZE_def PAYLOAD_SIZE_def data_packet_def zeroed_def)
  have acc: "tftp_step u n = (u\<lparr>t_inbox := evs, t_retry := 0, t_acks := t_acks u @ [ack_text s],
      t_remaining := t_remaining u - int (length p), t_pos := t_pos u + length p\<rparr>, blit (t_pos u) p n)"
    if "tftp_ok u" "t_status u = T_running" "0 < t_remaining u" "int (length p) \<le> t_remaining u" "t_inbox u = Dgram ?d True # evs"
    for u n evs
  proof -
    have "tftp_step u n = accept_dgram ?d (u\<lparr>t_inbox := evs\<rparr>) n" using that d by (simp add: tftp_step_def Let_def)
    then show ?thesis using accept_dgram_cases [of "u\<lparr>t_inbox := evs\<rparr>" ?d n] that d by (simp add: Let_def)
  qed
  have rem: "t_remaining t = int (t_hi t - t_pos t)" "t_lo t \<le> t_pos t" "t_pos t \<le> t_hi t" using assms(1) by (simp_all add: tftp_ok_def)
  have two: "2 = Suc (Suc 0)" "0 < length p" using assms(5) by simp_all
  note one = acc [OF assms(1-3) _ assms(4), of m]
  let ?t1 = "t\<lparr>t_inbox := [Dgram ?d True], t_retry := 0, t_acks := t_acks t @ [ack_text s],
      t_remaining := t_remaining t - int (length p), t_pos := t_pos t + length p\<rparr>"
  have "tftp_ok ?t1" using rem assms(7) by (auto simp: tftp_ok_def)
  note second = acc [OF this, of "[]" "blit (t_pos t) p m"]
  have s2: "solo tftp_step 2 t m = (?t1\<lparr>t_inbox := [], t_acks := t_acks t @ [ack_text s, ack_text s],
      t_remaining := t_remaining t - int (length p) - int (length p), t_pos := t_pos t + length p + length p\<rparr>,
      blit (t_pos t + length p) p (blit (t_pos t) p m))"
    unfolding two(1) using one second rem assms(2,7) two(2) by simp
  have "blit (t_pos t + length p) p (blit (t_pos t) p m) = blit (t_pos t) (p @ p) m"
    using rem assms(7,8) blit_append [of "t_pos t" p p m] by simp
  then have "seg (t_pos t) (2 * length p) (blit (t_pos t + length p) p (blit (t_pos t) p m)) = p @ p"
    using rem assms(7,8) seg_blit_same [of "t_pos t" "p @ p" m] by (simp add: mult_2)
  with s2 assms(2) show ?thesis by simp
qed

theorem tftp_duplicate_stored_twice_witness:
  "case solo tftp_step 2 (tftp_start (0, 4) True True [Dgram (data_packet 0 ''ab'') True, Dgram (data_packet 0 ''ab'') True])
     (replicate 4 NUL) of (t', m') \<Rightarrow> seg 0 4 m' = ''abab'' \<and> t_status t' = T_running"
  using tftp_duplicate_stored_twice [of
    "tftp_start (0, 4) True True [Dgram (data_packet 0 ''ab'') True, Dgram (data_packet 0 ''ab'') True]" 0 "''ab''" "replicate 4 NUL"]
  by (simp add: tftp_start_ok) (auto simp: tftp_start_def to_ssize_def PAYLOAD_SIZE_def split: prod.splits)

text \<open>
  C8. The acknowledgement text a client prints for the packet a server thread is waiting
  on, received from that client's address while the queue has room, lets the thread go on:
  it advances to the next sequence number, and the queue is left as it was before.
\<close>

theorem tftp_ack_advances_thread:
  assumes "queue_ok q" and "length (pending q) < MAX_QUEUE_SIZE" and "phase t = Wait_ack (k + SEQ_SIZE)"
    and "k \<le> remaining t" and "\<And>p. p \<in> set (pending q) \<Longrightarrow> \<not> is_ack (next_seq t) (peer t) p"
  shows "\<exists>q' q''. route_datagram fs junk_seq junk thread_ok q (peer t) alen (Some (ack_text (next_seq t))) = Ack_routed q' \<and>
    receive_ack t q' = (t\<lparr>next_seq := next_seq t + 1, remaining := remaining t - k, phase := Loop_head\<rparr>, q'') \<and>
    pending q'' = pending q"
proof -
  let ?p = "\<lparr>seq_num = next_seq t, client_addr = peer t, addr_len = alen\<rparr>"
  let ?q = "enqueue_ack ?p q"
  have "length (''ACK '' @ show_size (next_seq t)) < CLIENT_BUFFER_SIZE"
    using length_show_size [of "next_seq t"] by (simp add: CLIENT_BUFFER_SIZE_def)
  note route = route_ack_text [OF this, folded ack_text_def, of fs junk_seq junk thread_ok q "peer t" alen]
  have ok: "queue_ok ?q" using ackq.inv_enq [OF assms(1)] .
  have isack: "is_ack (next_seq t) (peer t) ?p" by (simp add: is_ack_def)
  obtain q'' where q'': "take_ack (next_seq t) (peer t) ?q = Some q''"
    using ackq.enq_then_tak [OF assms(1,2) isack] by blast
  obtain xs p ys where split: "pending ?q = xs @ p # ys" "pending q'' = xs @ ys" "is_ack (next_seq t) (peer t) p"
    using ackq.tak_Some [OF ok q''] by blast
  have "pending ?q = pending q @ [?p]" using ackq.pend_enq [OF assms(1)] assms(2) by simp
  with split have app: "pending q @ [?p] = xs @ p # ys" by simp
  have "ys = []"
  proof (rule ccontr)
    assume "ys \<noteq> []"
    then obtain zs z where "ys = zs @ [z]" by (metis rev_exhaust)
    with app have "pending q = xs @ p # zs" by simp
    with assms(5) split(3) show False by auto
  qed
  with app split(2) have "pending q'' = pending q" by simp
  moreover have "receive_ack t ?q = (t\<lparr>next_seq := next_seq t + 1, remaining := remaining t - k, phase := Loop_head\<rparr>, q'')"
    using receive_ack_taken [OF assms(3) q''] assms(4) by simp
  ultimately show ?thesis using route by blast
qed

theorem tftp_ack_advances_thread_witness:
  "\<exists>q' q''. route_datagram Map.empty 0 zero_request True (empty_queue \<lparr>seq_num = 0, client_addr = port_addr 7, addr_len = 16\<rparr>)
       (port_addr 7) 16 (Some (ack_text 3)) = Ack_routed q' \<and>
     receive_ack \<lparr>peer = port_addr 7, src_bytes = ''abc'', file_pos = 3, remaining = 3, next_seq = 3,
       phase = Wait_ack (3 + SEQ_SIZE)\<rparr> q' =
       (\<lparr>peer = port_addr 7, src_bytes = ''abc'', file_pos = 3, remaining = 0, next_seq = 4, phase = Loop_head\<rparr>, q'') \<and>
     pending q'' = []"
  using tftp_ack_advances_thread [of "empty_queue \<lparr>seq_num = 0, client_addr = port_addr 7, addr_len = 16\<rparr>"
    "\<lparr>peer = port_addr 7, src_bytes = ''abc'', file_pos = 3, remaining = 3, next_seq = 3, phase = Wait_ack (3 + SEQ_SIZE)\<rparr>" 3
    Map.empty 0 zero_request True 16]
  by (simp add: MAX_QUEUE_SIZE_def)

section \<open>Requests that end or derail the server\<close>

lemma route_request:
  assumes "NUL \<notin> set d" and "length d < TFTP_BUFFER_SIZE" and "\<not> strncmp_eq 3 d ''ACK''" and "2 \<le> params (scan_request junk d)"
  shows "route_datagram fs junk_seq junk True q a alen (Some d) = Spawn (handle_request fs a (scan_request junk d))"
  using assms by (simp add: route_datagram_def Let_def)

lemma route_get_request:
  assumes "plain_name f"
  shows "route_datagram fs junk_seq junk True q a alen (Some (get_request CLIENT_BUFFER_SIZE f off sz)) =
    Spawn (handle_request fs a \<lparr>params = 4, command = ''GET'', filename = f, offset = off, chunk_size = sz\<rparr>)"
proof -
  let ?d = "get_request CLIENT_BUFFER_SIZE f off sz"
  have n: "302 \<le> CLIENT_BUFFER_SIZE" by (simp add: CLIENT_BUFFER_SIZE_def)
  note rec = get_request_received [OF assms n, of off sz] and sc = scan_get_request [OF assms n, of junk off sz]
  have "NUL \<notin> set ?d" using rec(1) NUL_notin_cstr by metis
  moreover have "\<not> strncmp_eq 3 ?d ''ACK''"
    unfolding get_request_text [OF assms n] by (simp add: strncmp_eq_def cstr_def NUL_def)
  moreover have "length ?d < TFTP_BUFFER_SIZE" using rec(3) by (simp add: TFTP_BUFFER_SIZE_def CLIENT_BUFFER_SIZE_def)
  ultimately show ?thesis using route_request [of ?d junk fs junk_seq q a alen] sc by simp
qed

text \<open>
  C24. What one GET datagram does to the UDP server: the error reply when the file is
  missing; the end of the whole process, with every transfer in progress, when the offset
  is at or past the end of the file or the wrapping sum \<open>offset + chunk_size\<close> exceeds its
  size; otherwise a thread that starts at the offset with sequence number 0.
\<close>

theorem tftp_get_outcome:
  assumes "plain_name f" and "\<And>c. fs f = Some c \<Longrightarrow> length c < 2 ^ 63"
  shows "route_datagram fs junk_seq junk True q a alen (Some (get_request CLIENT_BUFFER_SIZE f off sz)) =
    Spawn (case fs f of
        None \<Rightarrow> Reply ''ERROR File not found''
      | Some c \<Rightarrow>
          if length c \<le> unat off \<or> length c < (unat off + unat sz) mod 2 ^ 64 then Process_exit
          else Transfer \<lparr>peer = a, src_bytes = c, file_pos = unat off, remaining = unat sz, next_seq = 0, phase = Loop_head\<rparr>)"
proof (cases "fs f")
  case None
  then show ?thesis
    unfolding route_get_request [OF assms(1)] by (simp add: handle_request_def not_found_reply_def)
next
  case (Some c)
  have "unat (tftp_file_size c) = length c" using assms(2) [OF Some] by (simp add: tftp_file_size_def unat_of_nat_size)
  with Some show ?thesis
    unfolding route_get_request [OF assms(1)]
    by (simp add: handle_request_def word_le_nat_alt word_less_nat_alt unat_add_size)
qed

theorem tftp_get_outcome_witness:
  "route_datagram [''a'' \<mapsto> ''hello''] 0 zero_request True (empty_queue \<lparr>seq_num = 0, client_addr = port_addr 7, addr_len = 16\<rparr>)
     (port_addr 7) 16 (Some (get_request CLIENT_BUFFER_SIZE ''a'' 5 1)) = Spawn Process_exit"
  using tftp_get_outcome [of "''a''" "[''a'' \<mapsto> ''hello'']" 0 zero_request
    "empty_queue \<lparr>seq_num = 0, client_addr = port_addr 7, addr_len = 16\<rparr>" "port_addr 7" 16 5 1]
  by (simp add: plain_name_def is_word_def isspace_def NUL_def split: if_splits)

lemma scan_short_get:
  assumes "plain_name f"
  shows "scan fmt_request (''GET'' @ CHR '' '' # f @ []) = ([SStr ''GET'', SStr f], True, [])"
proof -
  have f: "is_word f" "length f \<le> 255" using assms by (simp_all add: plain_name_def)
  have c: "scan [Conv_s (Some 255), WS, Conv_zu, WS, Conv_zu] (f @ []) = ([SStr f], True, [])"
    using f by (subst scan_s_word) simp_all
  show ?thesis
    unfolding fmt_request_def
    using f(1) by (subst scan_s_word) (simp_all only: c scan_ws_word Let_def split_conv, simp_all)
qed

text \<open>
  A GET without its numbers passes the server's check for malformed requests, which
  asks for two fields only: the thread then works with the offset and chunk size that the
  memory from \<open>malloc\<close> happened to hold.
\<close>

theorem tftp_short_get_uses_junk:
  assumes "plain_name f"
  shows "route_datagram fs junk_seq junk True q a alen (Some (''GET '' @ f)) =
    Spawn (handle_request fs a \<lparr>params = 2, command = ''GET'', filename = f, offset = offset junk, chunk_size = chunk_size junk\<rparr>)"
proof -
  let ?d = "''GET'' @ CHR '' '' # f @ []"
  have f: "NUL \<notin> set f" "length f \<le> 255" using assms by (auto simp: plain_name_def is_word_NUL)
  have sc: "scan_request junk ?d = \<lparr>params = 2, command = ''GET'', filename = f, offset = offset junk, chunk_size = chunk_size junk\<rparr>"
    by (simp only: scan_request_def sscanf_vals_def sscanf_ret_def scan_short_get [OF assms]) simp
  have "NUL \<notin> set ?d" using f(1) by simp
  moreover have "length ?d < TFTP_BUFFER_SIZE" using f(2) by (simp add: TFTP_BUFFER_SIZE_def)
  moreover have "\<not> strncmp_eq 3 ?d ''ACK''" by (simp add: strncmp_eq_def cstr_def NUL_def)
  ultimately show ?thesis using route_request [of ?d junk fs junk_seq q a alen] sc by simp
qed

theorem tftp_short_get_uses_junk_witness:
  "route_datagram [''a'' \<mapsto> ''hello''] 0 (zero_request\<lparr>offset := 9\<rparr>) True
     (empty_queue \<lparr>seq_num = 0, client_addr = port_addr 7, addr_len = 16\<rparr>) (port_addr 7) 16 (Some (''GET '' @ ''a'')) = Spawn Process_exit"
  using tftp_short_get_uses_junk [of "''a''" "[''a'' \<mapsto> ''hello'']" 0 "zero_request\<lparr>offset := 9\<rparr>"
    "empty_queue \<lparr>seq_num = 0, client_addr = port_addr 7, addr_len = 16\<rparr>" "port_addr 7" 16]
  by (simp add: plain_name_def is_word_def isspace_def NUL_def handle_request_def tftp_file_size_def zero_request_def)

end
