(* ===== verification/Roster.thy ===== *)
theory Roster
  imports Prelude_Net "HOL-Library.Multiset"
begin

text \<open>
  The contract of the bounded tables of connected and waiting clients: a table holds a
  multiset of keys, adding a new key to a table with room adds it, removing a key takes out
  one occurrence and nothing else. The order of the entries is not part of the contract,
  because some tables close a gap by moving the last entry into it and others by shifting.
\<close>

locale roster =
  fixes inv :: "'s \<Rightarrow> bool"
    and ids :: "'s \<Rightarrow> 'k list"
    and cap :: nat
    and add :: "'v \<Rightarrow> 's \<Rightarrow> 's"
    and key :: "'v \<Rightarrow> 'k"
    and del :: "'k \<Rightarrow> 's \<Rightarrow> 's"
  assumes bounded: "inv s \<Longrightarrow> length (ids s) \<le> cap"
    and inv_add: "inv s \<Longrightarrow> length (ids s) < cap \<Longrightarrow> key v \<notin> set (ids s) \<Longrightarrow> inv (add v s)"
    and ids_add: "inv s \<Longrightarrow> length (ids s) < cap \<Longrightarrow> key v \<notin> set (ids s) \<Longrightarrow> mset (ids (add v s)) = add_mset (key v) (mset (ids s))"
    and inv_del: "inv s \<Longrightarrow> inv (del k s)"
    and ids_del: "inv s \<Longrightarrow> mset (ids (del k s)) = mset (ids s) - {#k#}"
begin

lemma add_distinct:
  assumes "inv s" and "length (ids s) < cap" and "distinct (ids s)" and "key v \<notin> set (ids s)"
  shows "distinct (ids (add v s))"
  using assms(3,4) ids_add [OF assms(1,2,4)] mset_eq_imp_distinct_iff [of "ids (add v s)" "key v # ids s"] by simp

lemma add_member: "inv s \<Longrightarrow> length (ids s) < cap \<Longrightarrow> key v \<notin> set (ids s) \<Longrightarrow> set (ids (add v s)) = insert (key v) (set (ids s))"
  using ids_add [of s v] by (metis set_mset_add_mset_insert set_mset_mset)

lemma del_distinct:
  assumes "inv s" and "distinct (ids s)"
  shows "distinct (ids (del k s))"
  using assms(2) ids_del [OF assms(1), of k] by (metis distinct_remove1 mset_eq_imp_distinct_iff mset_remove1)

lemma del_member:
  assumes "inv s" and "distinct (ids s)"
  shows "set (ids (del k s)) = set (ids s) - {k}"
  using ids_del [OF assms(1), of k] assms(2) by (metis mset_eq_setD mset_remove1 set_remove1_eq)

lemma del_length:
  assumes "inv s" and "k \<in> set (ids s)"
  shows "Suc (length (ids (del k s))) = length (ids s)"
proof -
  have "length (ids (del k s)) = size (mset (ids s) - {#k#})"
    using ids_del [OF assms(1), of k] by (metis size_mset)
  also have "\<dots> = length (ids s) - 1" using assms(2) by (simp add: size_Diff_singleton)
  finally show ?thesis using length_pos_if_in_set [OF assms(2)] by simp
qed

text \<open>A key added and removed again leaves the other keys as they were.\<close>

lemma add_then_del:
  assumes "inv s" and "length (ids s) < cap" and "key v \<notin> set (ids s)"
  shows "mset (ids (del (key v) (add v s))) = mset (ids s)"
  using ids_del [OF inv_add [OF assms], of "key v"] ids_add [OF assms] by simp

end

lemma distinct_sub_mset:
  assumes "mset xs \<subseteq># mset ys" and "distinct ys"
  shows "distinct xs"
proof -
  obtain zs where "mset ys = mset xs + mset zs" using assms(1) by (metis ex_mset subset_mset.le_iff_add)
  then have "mset ys = mset (xs @ zs)" by simp
  then have "distinct (xs @ zs)" using assms(2) mset_eq_imp_distinct_iff by blast
  then show ?thesis by simp
qed

lemma length_takeWhile_less: "\<exists>x \<in> set xs. \<not> P x \<Longrightarrow> length (takeWhile P xs) < length xs"
  by (induction xs) auto

section \<open>Closing a gap in an array\<close>

text \<open>The loop that moves the rows behind position \<open>i\<close> down by one, up to the count \<open>n\<close>.\<close>

function shift_rows :: "nat \<Rightarrow> nat \<Rightarrow> 'a list \<Rightarrow> 'a list" where
  "shift_rows i n rows =
     (if Suc i < n then shift_rows (Suc i) n (rows[i := rows ! Suc i]) else rows)"
  by pat_completeness auto
termination
  by (relation "measure (\<lambda>(i, n, rows). n - i)") auto

declare shift_rows.simps [simp del]

lemma length_shift_rows [simp]: "length (shift_rows i n rows) = length rows"
  by (induction i n rows rule: shift_rows.induct) (subst shift_rows.simps, simp)

lemma shift_rows_beyond: "n \<le> i \<Longrightarrow> shift_rows i n rows = rows"
  by (subst shift_rows.simps) simp

lemma shift_rows_nth:
  assumes "n \<le> length rows"
  shows "k < length rows \<Longrightarrow> shift_rows i n rows ! k = (if i \<le> k \<and> Suc k < n then rows ! Suc k else rows ! k)"
  using assms
proof (induction i n rows rule: shift_rows.induct)
  case (1 i n rows)
  show ?case
  proof (cases "Suc i < n")
    case True
    have "shift_rows i n rows = shift_rows (Suc i) n (rows[i := rows ! Suc i])"
      using True by (subst shift_rows.simps) simp
    moreover have "shift_rows (Suc i) n (rows[i := rows ! Suc i]) ! k =
        (if Suc i \<le> k \<and> Suc k < n then rows[i := rows ! Suc i] ! Suc k else rows[i := rows ! Suc i] ! k)"
      using "1.IH" [OF True] "1.prems" by simp
    ultimately show ?thesis using True "1.prems" by (auto simp: nth_list_update)
  next
    case False
    then show ?thesis by (subst shift_rows.simps) auto
  qed
qed

lemma take_shift_rows:
  assumes "i < n" and "n \<le> length rows"
  shows "take (n - 1) (shift_rows i n rows) = take i (take n rows) @ drop (Suc i) (take n rows)"
proof (rule nth_equalityI)
  show "length (take (n - 1) (shift_rows i n rows)) = length (take i (take n rows) @ drop (Suc i) (take n rows))"
    using assms by simp
  fix k assume "k < length (take (n - 1) (shift_rows i n rows))"
  then have k: "k < n - 1" "k < length rows" using assms by simp_all
  then show "take (n - 1) (shift_rows i n rows) ! k = (take i (take n rows) @ drop (Suc i) (take n rows)) ! k"
    using assms by (auto simp: shift_rows_nth [OF assms(2)] nth_append min_def)
qed

end
