(* ===== verification/IrcServer.thy ===== *)
theory IrcServer
  imports Roster CText
begin

text \<open>
  The chat server, \<open>irc/server.c\<close>: the tables of connected and of waiting clients, one
  definition per command of \<open>client_handler\<close>, the loop body that dispatches them, and the
  server as a machine over the events of its sockets. The code checks no bound, so a command
  can leave its arrays; the definitions then return the name of what happened in the left of
  a sum, and nothing is said about the process afterwards. The handlers hold \<open>client_mutex\<close>
  around their accesses, so a command is one step.
\<close>

section \<open>Tables\<close>

definition MAX_CLIENTS :: nat where
  "MAX_CLIENTS = 100"

definition MAX_WAITING :: nat where
  "MAX_WAITING = 100"

definition IRC_BUFFER_SIZE :: nat where
  "IRC_BUFFER_SIZE = 1024"

definition ID_SIZE :: nat where
  "ID_SIZE = 32"

record client =
  cl_id :: string
  cl_socket :: int
  cl_port :: int
  in_chat :: char

record irc_state =
  clients :: "client list"
  client_count :: nat
  waiting_clients :: "string list"
  waiting_count :: int

definition find_index :: "('a \<Rightarrow> bool) \<Rightarrow> nat \<Rightarrow> 'a list \<Rightarrow> nat option" where
  "find_index P n rows = find (\<lambda>i. P (rows ! i)) [0..<n]"

definition broadcast :: "string \<Rightarrow> int \<Rightarrow> irc_state \<Rightarrow> (int \<times> string) list" where
  "broadcast message exclude_socket s =
     map (\<lambda>c. (cl_socket c, message))
       (filter (\<lambda>c. cl_socket c \<noteq> exclude_socket) (take (client_count s) (clients s)))"

definition add_client :: "client \<Rightarrow> irc_state \<Rightarrow> irc_state" where
  "add_client c s = s\<lparr>clients := (clients s)[client_count s := c], client_count := Suc (client_count s)\<rparr>"

definition remove_client :: "int \<Rightarrow> irc_state \<Rightarrow> irc_state" where
  "remove_client sock s =
     (case find_index (\<lambda>c. cl_socket c = sock) (client_count s) (clients s) of
        None \<Rightarrow> s
      | Some i \<Rightarrow> s\<lparr>clients := (clients s)[i := clients s ! (client_count s - 1)], client_count := client_count s - 1\<rparr>)"

definition find_waiting :: "string \<Rightarrow> irc_state \<Rightarrow> nat option" where
  "find_waiting cid s = find_index (\<lambda>w. w = cid) (nat (waiting_count s)) (waiting_clients s)"

text \<open>
  \<open>/wait\<close> files the id in the waiting table, but the port and the flag in the client table
  under the same index.
\<close>

definition push_waiting :: "string \<times> int \<Rightarrow> irc_state \<Rightarrow> irc_state" where
  "push_waiting w s =
     (let k = nat (waiting_count s)
      in s\<lparr>waiting_clients := (waiting_clients s)[k := fst w],
           clients := (clients s)[k := (clients s ! k)\<lparr>cl_port := snd w, in_chat := CHR ''y''\<rparr>],
           waiting_count := waiting_count s + 1\<rparr>)"

definition remove_waiting_at :: "nat \<Rightarrow> irc_state \<Rightarrow> irc_state" where
  "remove_waiting_at i s =
     s\<lparr>waiting_clients := shift_rows i (nat (waiting_count s)) (waiting_clients s), waiting_count := waiting_count s - 1\<rparr>"

section \<open>Commands\<close>

text \<open>
  How a command can fail to complete: a string is read or stored past the end of its buffer,
  an entry is stored outside the table of clients or of waiting clients, or the thread waits
  for the port of a \<open>/wait\<close>. The last is not an error of the thread, but it waits inside the
  critical section, so that until the port arrives no other command runs.
\<close>

datatype irc_halt = Text_overrun | Clients_overrun | Waiting_overrun | Port_awaited

text \<open>The line a command is: up to the newline or the terminator.\<close>

definition chomp :: "bytes \<Rightarrow> string" where
  "chomp buf = takeWhile (\<lambda>c. c \<noteq> CHR ''\<newline>'') (cstr buf)"

definition overrun :: "bytes \<Rightarrow> bool" where
  "overrun buf \<longleftrightarrow> \<not> terminated buf \<and> CHR ''\<newline>'' \<notin> set buf"

definition msg_taken :: bytes where
  "msg_taken = ''Client ID is already taken.'' @ [CHR ''\<newline>'', NUL]"

text \<open>
  The beginning of \<open>client_handler\<close>: the reply and the id under which the client is served.
  Whether the table has room is not tested; \<open>Clients_overrun\<close> is the store behind its end.
\<close>

definition join :: "int \<Rightarrow> bytes \<Rightarrow> irc_state \<Rightarrow> irc_halt + irc_state \<times> bytes \<times> string option" where
  "join sock received s =
     (let buf = zeroed ID_SIZE (take ID_SIZE received)
      in if overrun buf then Inl Text_overrun
         else let cid = chomp buf
           in if find_index (\<lambda>c. cl_id c = cid) (client_count s) (clients s) \<noteq> None then Inr (s, msg_taken, None)
              else if length (clients s) \<le> client_count s then Inl Clients_overrun
              else Inr (add_client \<lparr>cl_id = cid, cl_socket = sock, cl_port = - 1, in_chat = CHR ''n''\<rparr> s,
                         ''Client '' @ cid @ '' connected.'' @ [CHR ''\<newline>''], Some cid))"

text \<open>\<open>/list\<close>: the response buffer is filled with \<open>strcat\<close> without a bound.\<close>

definition list_text :: "irc_state \<Rightarrow> string" where
  "list_text s = ''Waiting clients:'' @ [CHR ''\<newline>''] @
     concat (map (\<lambda>w. w @ [CHR ''\<newline>'']) (take (nat (waiting_count s)) (waiting_clients s)))"

definition do_list :: "irc_state \<Rightarrow> irc_halt + irc_state \<times> bytes" where
  "do_list s =
     (if waiting_count s = 0 then Inr (s, ''No clients are waiting.'' @ [CHR ''\<newline>''])
      else if length (waiting_clients s) < nat (waiting_count s) then Inl Waiting_overrun
      else if IRC_BUFFER_SIZE \<le> length (list_text s) then Inl Text_overrun
      else Inr (s, list_text s))"

text \<open>\<open>atoi\<close> on a full buffer whose number runs up to its end reads past it.\<close>

definition atoi_overrun :: "bytes \<Rightarrow> bool" where
  "atoi_overrun buf \<longleftrightarrow> \<not> terminated buf \<and> list_all isdigit (after_sign (dropWhile isspace buf))"

text \<open>
  \<open>/wait\<close>: the port comes in a \<open>recv\<close> of its own, \<open>port_msg\<close>, which is \<open>None\<close> as long as nothing
  arrives and \<open>Some []\<close> at the end of the stream. The tables are not tested for room.
\<close>

definition do_wait :: "string \<Rightarrow> bytes option \<Rightarrow> irc_state \<Rightarrow> irc_halt + irc_state \<times> bytes" where
  "do_wait cid port_msg s =
     (if find_waiting cid s \<noteq> None then Inr (s, ''You are already in WAIT mode.'' @ [CHR ''\<newline>''])
      else case port_msg of
        None \<Rightarrow> Inl Port_awaited
      | Some d \<Rightarrow>
          (let buf = zeroed IRC_BUFFER_SIZE (take IRC_BUFFER_SIZE d)
           in if atoi_overrun buf then Inl Text_overrun
              else let listening_port = atoi (cstr buf)
                in if 0 < listening_port
                   then if waiting_count s < 0 \<or> int (length (waiting_clients s)) \<le> waiting_count s then Inl Waiting_overrun
                        else Inr (push_waiting (cid, listening_port) s,
                                  ''Waiting for connection. (Ctrl+C to stop waiting)'' @ [CHR ''\<newline>'', NUL])
                   else Inr (s, ''Invalid port number.'' @ [CHR ''\<newline>'', NUL])))"

definition fmt_connect_cmd :: "directive list" where
  "fmt_connect_cmd = map Lit ''/connect'' @ [WS, Conv_s None]"

definition connect_text :: "string \<Rightarrow> int \<Rightarrow> string" where
  "connect_text target_id target_port =
     snprintf IRC_BUFFER_SIZE (''CONNECT '' @ target_id @ '' '' @ ''127.0.0.1'' @ '' '' @ show_int target_port @ [CHR ''\<newline>''])"

text \<open>\<open>junk_id\<close> is what the uninitialised \<open>target_id\<close> holds when the command names nobody.\<close>

definition do_connect :: "string \<Rightarrow> string \<Rightarrow> irc_state \<Rightarrow> irc_halt + irc_state \<times> bytes" where
  "do_connect junk_id line s =
     (let target_id = (case sscanf_vals fmt_connect_cmd line of [SStr t] \<Rightarrow> t | _ \<Rightarrow> junk_id)
      in if ID_SIZE \<le> length target_id then Inl Text_overrun
         else case find_waiting target_id s of
           None \<Rightarrow> Inr (s, ''Client is not waiting.'' @ [CHR ''\<newline>'', NUL])
         | Some target_index \<Rightarrow>
             Inr (remove_waiting_at target_index s, connect_text target_id (cl_port (clients s ! target_index))))"

text \<open>
  \<open>/stop_wait\<close>: \<open>target_index\<close> is not initialised, and the count goes down whether or not
  the client was waiting. \<open>junk_index\<close> is the value the variable happened to have.
\<close>

definition do_stop_wait :: "int \<Rightarrow> string \<Rightarrow> irc_state \<Rightarrow> irc_halt + irc_state \<times> bytes" where
  "do_stop_wait junk_index cid s =
     (let target_index = (case find_waiting cid s of Some i \<Rightarrow> int i | None \<Rightarrow> junk_index)
      in if target_index < 0 \<and> target_index < waiting_count s - 1 then Inl Waiting_overrun
         else Inr (remove_waiting_at (nat target_index) s, [CHR ''\<newline>''] @ ''Stopped waiting.'' @ [CHR ''\<newline>'']))"

text \<open>
  The body of the loop of \<open>client_handler\<close>: the new tables, what is sent to the client, and
  whether the loop goes on. \<open>port_msg\<close> is the message a \<open>/wait\<close> reads next.
\<close>

definition handle_message ::
  "int \<Rightarrow> string \<Rightarrow> bytes option \<Rightarrow> bytes option \<Rightarrow> string \<Rightarrow> int \<Rightarrow> irc_state \<Rightarrow> irc_halt + irc_state \<times> bytes \<times> bool" where
  "handle_message sock cid received port_msg junk_id junk_index s =
     (let d = (case received of None \<Rightarrow> [] | Some b \<Rightarrow> take IRC_BUFFER_SIZE b);
          buf = zeroed IRC_BUFFER_SIZE d; line = chomp buf;
          go = map_sum id (\<lambda>(s', out). (s', out, True))
      in if overrun buf then Inl Text_overrun
         else if d = [] then Inr (remove_client sock s, [], False)
         else if strncmp_eq 5 line ''/list'' then go (do_list s)
         else if strncmp_eq 5 line ''/wait'' then go (do_wait cid port_msg s)
         else if strncmp_eq 8 line ''/connect'' then go (do_connect junk_id line s)
         else if strncmp_eq 10 line ''/stop_wait'' then go (do_stop_wait junk_index cid s)
         else if strncmp_eq 5 line ''/quit'' then Inr (s, [], False)
         else Inr (s, ''Bad prompt.'' @ [CHR ''\<newline>'', NUL], True))"

section \<open>The server\<close>

text \<open>
  The threads of the server by the socket they serve, and the events: a connection with
  the first message it sends, or a message (or the end) on a served socket.
\<close>

record irc_server =
  tables :: irc_state
  serving :: "int \<rightharpoonup> string"

datatype irc_event = Connected int bytes | Message int "bytes option" "bytes option" string int

fun irc_step :: "irc_event \<Rightarrow> irc_server \<Rightarrow> irc_halt + irc_server \<times> (int \<times> bytes)" where
  "irc_step (Connected sock b) v =
     (case join sock b (tables v) of
        Inl h \<Rightarrow> Inl h
      | Inr (s, out, None) \<Rightarrow> Inr (v\<lparr>tables := s\<rparr>, (sock, out))
      | Inr (s, out, Some cid) \<Rightarrow> Inr (v\<lparr>tables := s, serving := (serving v)(sock \<mapsto> cid)\<rparr>, (sock, out)))"
| "irc_step (Message sock b port_msg junk_id junk_index) v =
     (case serving v sock of
        None \<Rightarrow> Inr (v, (sock, []))
      | Some cid \<Rightarrow>
          (case handle_message sock cid b port_msg junk_id junk_index (tables v) of
             Inl h \<Rightarrow> Inl h
           | Inr (s, out, True) \<Rightarrow> Inr (v\<lparr>tables := s\<rparr>, (sock, out))
           | Inr (s, out, False) \<Rightarrow> Inr (v\<lparr>tables := s, serving := (serving v)(sock := None)\<rparr>, (sock, out))))"

fun irc_run :: "irc_event list \<Rightarrow> irc_server \<Rightarrow> irc_halt + irc_server" where
  "irc_run [] v = Inr v"
| "irc_run (e # es) v = (case irc_step e v of Inl h \<Rightarrow> Inl h | Inr (v', _) \<Rightarrow> irc_run es v')"

definition empty_client :: client where
  "empty_client = \<lparr>cl_id = [], cl_socket = 0, cl_port = 0, in_chat = NUL\<rparr>"

definition irc_init :: irc_server where
  "irc_init = \<lparr>tables = \<lparr>clients = replicate MAX_CLIENTS empty_client, client_count = 0,
     waiting_clients = replicate MAX_WAITING [], waiting_count = 0\<rparr>, serving = Map.empty\<rparr>"

definition irc_server_startup :: "int \<Rightarrow> int \<Rightarrow> int \<Rightarrow> int \<Rightarrow> bool" where
  "irc_server_startup argc sock bound listening \<longleftrightarrow> argc = 2 \<and> sock \<noteq> - 1 \<and> bound \<noteq> - 1 \<and> listening \<noteq> - 1"

section \<open>The tables implement the roster contract\<close>

definition irc_ok :: "irc_state \<Rightarrow> bool" where
  "irc_ok s \<longleftrightarrow> length (clients s) = MAX_CLIENTS \<and> client_count s \<le> MAX_CLIENTS \<and>
     length (waiting_clients s) = MAX_WAITING \<and> 0 \<le> waiting_count s \<and> waiting_count s \<le> int MAX_WAITING"

definition clients_ok :: "irc_state \<Rightarrow> bool" where
  "clients_ok s \<longleftrightarrow> length (clients s) = MAX_CLIENTS \<and> client_count s \<le> MAX_CLIENTS"

definition active :: "irc_state \<Rightarrow> client list" where
  "active s = take (client_count s) (clients s)"

definition waiting :: "irc_state \<Rightarrow> string list" where
  "waiting s = take (nat (waiting_count s)) (waiting_clients s)"

definition leave_waiting :: "string \<Rightarrow> irc_state \<Rightarrow> irc_state" where
  "leave_waiting cid s = (case find_waiting cid s of None \<Rightarrow> s | Some i \<Rightarrow> remove_waiting_at i s)"

lemma find_index_Some:
  assumes "find_index P n rows = Some i"
  shows "i < n" "P (rows ! i)" "\<And>j. j < i \<Longrightarrow> \<not> P (rows ! j)"
  using assms by (auto simp: find_index_def find_Some_iff)

lemma find_index_None: "find_index P n rows = None \<longleftrightarrow> (\<forall>i < n. \<not> P (rows ! i))"
  by (auto simp: find_index_def find_None_iff)

lemma find_index_take: "n \<le> length rows \<Longrightarrow> find_index P n rows = None \<longleftrightarrow> (\<forall>x \<in> set (take n rows). \<not> P x)"
  using nth_image [of n rows] by (auto simp: find_index_None simp flip: nth_image)

lemma remove_nth_mset: "i < length xs \<Longrightarrow> mset (take i xs @ drop (Suc i) xs) = mset xs - {#xs ! i#}"
proof -
  assume i: "i < length xs"
  have "mset xs = mset (take i xs @ xs ! i # drop (Suc i) xs)" using id_take_nth_drop [OF i] by simp
  then show ?thesis by simp
qed

text \<open>Moving the last entry into a gap removes the entry that was there.\<close>

lemma swap_last_mset:
  assumes "i < n" and "n \<le> length xs"
  shows "mset (take (n - 1) (xs[i := xs ! (n - 1)])) = mset (take n xs) - {#xs ! i#}"
proof -
  have n: "take n xs = take (n - 1) xs @ [xs ! (n - 1)]"
    using assms take_Suc_conv_app_nth [of "n - 1" xs] by simp
  show ?thesis
  proof (cases "i = n - 1")
    case True
    then have "take (n - 1) (xs[i := xs ! (n - 1)]) = take (n - 1) xs" by simp
    then show ?thesis using n True by simp
  next
    case False
    then have i: "i < length (take (n - 1) xs)" using assms by simp
    have "take (n - 1) (xs[i := xs ! (n - 1)]) = (take (n - 1) xs)[i := xs ! (n - 1)]"
      by (simp add: take_update_swap)
    moreover have "mset ((take (n - 1) xs)[i := xs ! (n - 1)]) =
        add_mset (xs ! (n - 1)) (mset (take (n - 1) xs) - {#xs ! i#})"
      using i assms by (simp add: mset_update)
    moreover have "xs ! i \<in># mset (take (n - 1) xs)" using i nth_mem [OF i] by simp
    ultimately show ?thesis using n by simp
  qed
qed

lemma irc_ok_clients: "irc_ok s \<Longrightarrow> clients_ok s"
  by (simp add: irc_ok_def clients_ok_def)

lemma remove_client_active:
  assumes "clients_ok s"
  shows "\<exists>c. mset (active (remove_client sock s)) = mset (active s) - c \<and>
    mset (map cl_socket (active (remove_client sock s))) = mset (map cl_socket (active s)) - {#sock#}"
proof (cases "find_index (\<lambda>c. cl_socket c = sock) (client_count s) (clients s)")
  case None
  then have "sock \<notin> set (map cl_socket (active s))"
    using assms by (auto simp: find_index_take clients_ok_def active_def)
  with None show ?thesis by (intro exI [of _ "{#}"]) (simp add: remove_client_def)
next
  case (Some i)
  note f = find_index_Some [OF Some]
  have len: "client_count s \<le> length (clients s)" using assms by (simp add: clients_ok_def)
  have m: "mset (active (remove_client sock s)) = mset (active s) - {#clients s ! i#}"
    using swap_last_mset [OF f(1) len] Some by (simp add: active_def remove_client_def)
  have "clients s ! i \<in># mset (active s)" using f(1) len by (auto simp: active_def in_set_conv_nth)
  then have "image_mset cl_socket (mset (active s) - {#clients s ! i#}) = image_mset cl_socket (mset (active s)) - {#sock#}"
    using f(2) by (simp add: image_mset_Diff)
  with m show ?thesis by (intro exI [of _ "{#clients s ! i#}"]) simp
qed

interpretation connected: roster clients_ok "\<lambda>s. map cl_socket (active s)" MAX_CLIENTS add_client cl_socket remove_client
proof (unfold_locales, goal_cases)
  case (1 s)
  then show ?case by (simp add: clients_ok_def active_def)
next
  case (2 s v)
  then show ?case by (simp add: clients_ok_def active_def add_client_def)
next
  case (3 s v)
  then show ?case by (simp add: clients_ok_def active_def add_client_def take_Suc_conv_app_nth)
next
  case (4 s k)
  then show ?case by (auto simp: clients_ok_def remove_client_def split: option.splits)
next
  case (5 s k)
  then show ?case using remove_client_active [of s k] by blast
qed

lemma waiting_remove_at:
  assumes "irc_ok s" and "i < nat (waiting_count s)"
  shows "waiting (remove_waiting_at i s) = take i (waiting s) @ drop (Suc i) (waiting s)"
proof -
  have "nat (waiting_count s - 1) = nat (waiting_count s) - 1" by simp
  moreover have "nat (waiting_count s) \<le> length (waiting_clients s)" using assms(1) by (auto simp: irc_ok_def)
  ultimately show ?thesis
    using take_shift_rows [OF assms(2), of "waiting_clients s"] by (simp add: waiting_def remove_waiting_at_def)
qed

lemma irc_ok_remove_at: "irc_ok s \<Longrightarrow> i < nat (waiting_count s) \<Longrightarrow> irc_ok (remove_waiting_at i s)"
  by (auto simp: irc_ok_def remove_waiting_at_def)

interpretation waiting_table: roster irc_ok waiting MAX_WAITING push_waiting fst leave_waiting
proof (unfold_locales, goal_cases)
  case (1 s)
  then show ?case by (auto simp: irc_ok_def waiting_def)
next
  case (2 s v)
  then show ?case by (auto simp: irc_ok_def waiting_def push_waiting_def Let_def)
next
  case (3 s v)
  moreover have "nat (waiting_count s + 1) = Suc (nat (waiting_count s))" using 3 by (simp add: irc_ok_def nat_add_distrib)
  ultimately show ?case
    by (auto simp: irc_ok_def waiting_def push_waiting_def Let_def take_Suc_conv_app_nth)
next
  case (4 s k)
  then show ?case
    using find_index_Some(1) [of _ "nat (waiting_count s)" "waiting_clients s"] irc_ok_remove_at
    by (auto simp: leave_waiting_def find_waiting_def split: option.splits)
next
  case (5 s k)
  have len: "nat (waiting_count s) \<le> length (waiting_clients s)" using 5 by (auto simp: irc_ok_def)
  show ?case
  proof (cases "find_waiting k s")
    case None
    then have "k \<notin> set (waiting s)" using len by (auto simp: find_waiting_def find_index_take waiting_def)
    with None show ?thesis by (simp add: leave_waiting_def)
  next
    case (Some i)
    note f = find_index_Some [OF Some [unfolded find_waiting_def]]
    have "waiting s ! i = k" "i < length (waiting s)" using f len by (simp_all add: waiting_def)
    with Some waiting_remove_at [OF 5 f(1)] remove_nth_mset [of i "waiting s"] show ?thesis by (simp add: leave_waiting_def)
  qed
qed

section \<open>Ids and commands\<close>

text \<open>An id as \<open>client_handler\<close> stores it.\<close>

definition good_id :: "string \<Rightarrow> bool" where
  "good_id cid \<longleftrightarrow> length cid < ID_SIZE \<and> NUL \<notin> set cid \<and> CHR ''\<newline>'' \<notin> set cid"

lemma chomp_good: "length buf = ID_SIZE \<Longrightarrow> \<not> overrun buf \<Longrightarrow> good_id (chomp buf)"
proof -
  assume len: "length buf = ID_SIZE" and o: "\<not> overrun buf"
  have eq: "chomp buf = takeWhile (\<lambda>c. c \<noteq> NUL \<and> c \<noteq> CHR ''\<newline>'') buf"
    by (induction buf) (auto simp: chomp_def cstr_def)
  have "\<exists>c \<in> set buf. \<not> (c \<noteq> NUL \<and> c \<noteq> CHR ''\<newline>'')" using o by (auto simp: overrun_def terminated_def)
  then have "length (chomp buf) < length buf"
    unfolding eq by (rule length_takeWhile_less)
  moreover have "NUL \<notin> set (chomp buf)" "CHR ''\<newline>'' \<notin> set (chomp buf)"
    unfolding eq by (auto dest: set_takeWhileD)
  ultimately show ?thesis using len by (simp add: good_id_def)
qed

definition ids_ok :: "irc_state \<Rightarrow> bool" where
  "ids_ok s \<longleftrightarrow> clients_ok s \<and> distinct (map cl_id (active s)) \<and> list_all good_id (map cl_id (active s))"

lemma ids_ok_join:
  assumes "ids_ok s" and "join sock b s = Inr (s', out, r)"
  shows "ids_ok s'"
proof -
  let ?buf = "zeroed ID_SIZE (take ID_SIZE b)"
  have len: "length ?buf = ID_SIZE" by (simp add: length_zeroed)
  have ok: "client_count s \<le> length (clients s)" using assms(1) by (simp add: ids_ok_def clients_ok_def)
  show ?thesis
  proof (cases "s' = s")
    case False
    then have n: "\<not> overrun ?buf" "find_index (\<lambda>c. cl_id c = chomp ?buf) (client_count s) (clients s) = None"
      "client_count s < length (clients s)"
      "s' = add_client \<lparr>cl_id = chomp ?buf, cl_socket = sock, cl_port = - 1, in_chat = CHR ''n''\<rparr> s"
      using assms(2) by (auto simp: join_def Let_def split: if_splits)
    have "active s' = active s @ [\<lparr>cl_id = chomp ?buf, cl_socket = sock, cl_port = - 1, in_chat = CHR ''n''\<rparr>]"
      using n(3,4) assms(1) by (simp add: active_def add_client_def ids_ok_def clients_ok_def take_Suc_conv_app_nth)
    moreover have "chomp ?buf \<notin> cl_id ` set (active s)"
      using n(2) find_index_take [OF ok] by (auto simp: active_def)
    ultimately show ?thesis
      using assms(1) n(3,4) chomp_good [OF len n(1)] by (simp add: ids_ok_def clients_ok_def add_client_def)
  qed (use assms(1) in simp)
qed

lemma ids_ok_remove:
  assumes "ids_ok s"
  shows "ids_ok (remove_client sock s)"
proof -
  have ok: "clients_ok s" using assms by (simp add: ids_ok_def)
  obtain c where c: "mset (active (remove_client sock s)) = mset (active s) - c" using remove_client_active [OF ok] by blast
  then have sub: "mset (map cl_id (active (remove_client sock s))) \<subseteq># mset (map cl_id (active s))"
    unfolding mset_map by (intro image_mset_subseteq_mono) (simp add: diff_subset_eq_self)
  have "distinct (map cl_id (active s))" "list_all good_id (map cl_id (active s))"
    using assms unfolding ids_ok_def by blast+
  moreover have "set (map cl_id (active (remove_client sock s))) \<subseteq> set (map cl_id (active s))"
    using set_mset_mono [OF sub] by (simp only: set_mset_mset)
  ultimately show ?thesis
    unfolding ids_ok_def list_all_iff using connected.inv_del [OF ok] distinct_sub_mset [OF sub] by blast
qed

lemma active_push: "map cl_id (active (push_waiting w s)) = map cl_id (active s)"
proof -
  let ?k = "nat (waiting_count s)"
  have "map cl_id ((clients s)[?k := (clients s ! ?k)\<lparr>cl_port := p, in_chat := CHR ''y''\<rparr>]) = map cl_id (clients s)" for p
    by (cases "?k < length (clients s)") (simp_all add: map_update list_update_same_conv list_update_beyond)
  then show ?thesis by (simp add: active_def push_waiting_def Let_def flip: take_map)
qed

lemma ids_ok_cong:
  "length (clients s') = length (clients s) \<Longrightarrow> client_count s' = client_count s \<Longrightarrow>
     map cl_id (active s') = map cl_id (active s) \<Longrightarrow> ids_ok s' = ids_ok s"
  unfolding ids_ok_def clients_ok_def by (simp only:)

text \<open>What a message can do to the tables.\<close>

lemma map_sum_Inr: "map_sum id f r = Inr y \<Longrightarrow> (\<And>x. r = Inr x \<Longrightarrow> y = f x \<Longrightarrow> P) \<Longrightarrow> P"
  by (cases r) auto

lemma map_sum_Inl: "map_sum id f r = Inl e \<longleftrightarrow> r = Inl e"
  by (cases r) auto

lemma handle_message_cases:
  assumes "handle_message sock cid b port_msg junk_id junk_index s = Inr (s', out, go)"
  obtains "s' = s" | "s' = remove_client sock s"
  | p where "s' = push_waiting (cid, p) s" "find_waiting cid s = None" "0 \<le> waiting_count s" "waiting_count s < int (length (waiting_clients s))"
  | t i where "find_waiting t s = Some i" "s' = remove_waiting_at i s"
  | i c where "b = Some c" "strncmp_eq 10 (chomp (zeroed IRC_BUFFER_SIZE (take IRC_BUFFER_SIZE c))) ''/stop_wait''"
      "find_waiting cid s = None" "s' = remove_waiting_at i s"
proof -
  let ?d = "case b of None \<Rightarrow> [] | Some b \<Rightarrow> take IRC_BUFFER_SIZE b"
  let ?line = "chomp (zeroed IRC_BUFFER_SIZE ?d)"
  have lst: "do_list s = Inr (s', o1) \<Longrightarrow> s' = s" for o1 by (auto simp: do_list_def split: if_splits)
  have wait: "do_wait cid port_msg s = Inr (s', o1) \<Longrightarrow> s' = s \<or> (\<exists>p. s' = push_waiting (cid, p) s \<and>
      find_waiting cid s = None \<and> 0 \<le> waiting_count s \<and> waiting_count s < int (length (waiting_clients s)))" for o1
    by (auto simp: do_wait_def Let_def split: if_splits option.splits)
  have conn: "do_connect junk_id l s = Inr (s', o1) \<Longrightarrow> s' = s \<or> (\<exists>t i. find_waiting t s = Some i \<and> s' = remove_waiting_at i s)" for l o1
    by (auto simp: do_connect_def Let_def split: if_splits option.splits)
  have stop: "do_stop_wait junk_index cid s = Inr (s', o1) \<Longrightarrow>
      (\<exists>t i. find_waiting t s = Some i \<and> s' = remove_waiting_at i s) \<or> find_waiting cid s = None \<and> (\<exists>i. s' = remove_waiting_at i s)" for o1
    by (cases "find_waiting cid s") (auto simp: do_stop_wait_def Let_def split: if_splits)
  have c: "(s' = s \<or> s' = remove_client sock s) \<or> (\<exists>o1. do_list s = Inr (s', o1)) \<or> (\<exists>o1. do_wait cid port_msg s = Inr (s', o1)) \<or>
      (\<exists>o1. do_connect junk_id ?line s = Inr (s', o1)) \<or>
      (?d \<noteq> [] \<and> strncmp_eq 10 ?line ''/stop_wait'' \<and> (\<exists>o1. do_stop_wait junk_index cid s = Inr (s', o1)))"
    using assms unfolding handle_message_def Let_def by (auto split: if_splits elim!: map_sum_Inr)
  have "\<exists>x. b = Some x \<and> ?d = take IRC_BUFFER_SIZE x" if "?d \<noteq> []" using that by (cases b) auto
  with c show thesis using lst wait conn stop that by metis
qed

lemma ids_ok_message:
  assumes "ids_ok s" and "handle_message sock cid b port_msg junk_id junk_index s = Inr (s', out, go)"
  shows "ids_ok s'"
proof -
  have w: "ids_ok (remove_waiting_at i s)" for i
    using assms(1) by (subst ids_ok_cong [of _ s]) (simp_all add: remove_waiting_at_def active_def)
  have p: "ids_ok (push_waiting x s)" for x
    using assms(1) by (subst ids_ok_cong [of _ s]) (simp_all only: active_push, simp_all add: push_waiting_def Let_def)
  show ?thesis
    using assms(2) by (rule handle_message_cases) (simp_all add: assms(1) ids_ok_remove w p)
qed

lemma ids_ok_step:
  assumes "ids_ok (tables v)" and "irc_step e v = Inr (v', out)"
  shows "ids_ok (tables v')"
proof (cases e)
  case (Connected sock b)
  then obtain s o1 r where "join sock b (tables v) = Inr (s, o1, r)" "tables v' = s"
    using assms(2) by (auto split: option.splits sum.splits)
  with ids_ok_join [OF assms(1)] show ?thesis by simp
next
  case (Message sock b port_msg junk_id junk_index)
  show ?thesis
  proof (cases "serving v sock")
    case None
    with Message assms show ?thesis by simp
  next
    case (Some cid)
    then obtain s o1 r where "handle_message sock cid b port_msg junk_id junk_index (tables v) = Inr (s, o1, r)" "tables v' = s"
      using assms(2) Message by (auto split: option.splits bool.splits sum.splits)
    with ids_ok_message [OF assms(1)] show ?thesis by simp
  qed
qed

lemma ids_ok_run: "ids_ok (tables v) \<Longrightarrow> irc_run es v = Inr v' \<Longrightarrow> ids_ok (tables v')"
  by (induction es arbitrary: v) (auto split: sum.splits dest: ids_ok_step)

lemma ids_ok_init: "ids_ok (tables irc_init)"
  by (simp add: ids_ok_def clients_ok_def active_def irc_init_def)

section \<open>Properties\<close>

text \<open>
  C5. Client ids of the chat server are unique. In every execution from the start that has
  not left its arrays, for all connections and messages in any order, the connected clients
  have pairwise distinct ids, each shorter than 32 characters and without newline or NUL. The
  code does not bound their number: the table of clients is left exactly when a new id
  arrives while 100 clients are connected, and from then on nothing is claimed.
\<close>

theorem irc_ids_unique:
  assumes "irc_run es irc_init = Inr v"
  shows "distinct (map cl_id (active (tables v))) \<and> list_all good_id (map cl_id (active (tables v))) \<and>
    (join sock b (tables v) = Inl Clients_overrun \<longleftrightarrow>
       client_count (tables v) = MAX_CLIENTS \<and> \<not> overrun (zeroed ID_SIZE (take ID_SIZE b)) \<and>
       chomp (zeroed ID_SIZE (take ID_SIZE b)) \<notin> set (map cl_id (active (tables v))))"
proof -
  let ?s = "tables v"
  have ok: "ids_ok ?s" using ids_ok_run [OF ids_ok_init assms] .
  then have len: "length (clients ?s) = MAX_CLIENTS" "client_count ?s \<le> MAX_CLIENTS" by (simp_all add: ids_ok_def clients_ok_def)
  then have "find_index (\<lambda>c. cl_id c = i) (client_count ?s) (clients ?s) = None \<longleftrightarrow> i \<notin> set (map cl_id (active ?s))" for i
    by (auto simp: find_index_take active_def)
  then have "join sock b ?s = Inl Clients_overrun \<longleftrightarrow> client_count ?s = MAX_CLIENTS \<and> \<not> overrun (zeroed ID_SIZE (take ID_SIZE b)) \<and>
       chomp (zeroed ID_SIZE (take ID_SIZE b)) \<notin> set (map cl_id (active ?s))"
    using len by (auto simp: join_def Let_def)
  with ok show ?thesis unfolding ids_ok_def by blast
qed

theorem irc_ids_unique_witness:
  "\<exists>v. irc_run [Connected 4 ''ann'', Connected 5 ''bob'', Connected 6 ''ann'', Message 4 None None [] 0] irc_init = Inr v \<and>
     distinct (map cl_id (active (tables v))) \<and>
     (join 7 ''eve'' (tables v) = Inl Clients_overrun \<longleftrightarrow>
       client_count (tables v) = MAX_CLIENTS \<and> \<not> overrun (zeroed ID_SIZE (take ID_SIZE ''eve'')) \<and>
       chomp (zeroed ID_SIZE (take ID_SIZE ''eve'')) \<notin> set (map cl_id (active (tables v))))"
proof -
  let ?es = "[Connected 4 ''ann'', Connected 5 ''bob'', Connected 6 ''ann'', Message 4 None None [] 0]"
  have "isl (irc_run ?es irc_init) = False" by code_simp
  then obtain v where "irc_run ?es irc_init = Inr v" by (cases "irc_run ?es irc_init") auto
  with irc_ids_unique [OF this, of 7 "''eve''"] show ?thesis by blast
qed

text \<open>The buffer and the line of a message.\<close>

definition msg_buffer :: "bytes option \<Rightarrow> bytes" where
  "msg_buffer b = zeroed IRC_BUFFER_SIZE (case b of None \<Rightarrow> [] | Some c \<Rightarrow> take IRC_BUFFER_SIZE c)"

lemma not_overrun_commands:
  assumes "irc_ok s"
  shows "do_list s \<noteq> Inl Waiting_overrun" "do_connect junk_id l s \<noteq> Inl Waiting_overrun"
    "find_waiting cid s \<noteq> None \<Longrightarrow> do_stop_wait junk_index cid s \<noteq> Inl Waiting_overrun"
  using assms by (auto simp: do_list_def do_connect_def do_stop_wait_def irc_ok_def Let_def split: option.split)

lemma do_wait_overrun:
  assumes "irc_ok s"
  shows "do_wait cid port_msg s = Inl Waiting_overrun \<longleftrightarrow> waiting_count s = int MAX_WAITING \<and> find_waiting cid s = None \<and>
    (\<exists>d. port_msg = Some d \<and> \<not> atoi_overrun (zeroed IRC_BUFFER_SIZE (take IRC_BUFFER_SIZE d)) \<and>
       0 < atoi (cstr (zeroed IRC_BUFFER_SIZE (take IRC_BUFFER_SIZE d))))"
  using assms by (cases port_msg) (auto simp: do_wait_def Let_def irc_ok_def)

lemma handle_message_wait:
  assumes "strncmp_eq 5 (chomp (msg_buffer b)) ''/wait''" and "\<not> overrun (msg_buffer b)"
  shows "handle_message sock cid b port_msg junk_id junk_index s = map_sum id (\<lambda>(s', out). (s', out, True)) (do_wait cid port_msg s)"
proof -
  let ?d = "case b of None \<Rightarrow> [] | Some c \<Rightarrow> take IRC_BUFFER_SIZE c"
  have "\<not> strncmp_eq 5 (chomp (zeroed IRC_BUFFER_SIZE [])) ''/wait''" by code_simp
  then have "?d \<noteq> []" using assms(1) by (auto simp: msg_buffer_def)
  moreover have "\<not> strncmp_eq 5 (chomp (msg_buffer b)) ''/list''" using assms(1) by (simp add: strncmp_eq_def) (simp add: cstr_def NUL_def)
  ultimately show ?thesis using assms unfolding handle_message_def msg_buffer_def Let_def by simp
qed

text \<open>
  C9. A message keeps the waiting table consistent, its count within the table and no id in
  it twice, if a \<open>/stop_wait\<close> comes only from a client that is waiting and as long as the
  command completes. The code does not bound the table: a message leaves it exactly when it
  is a \<open>/wait\<close> with a positive port of a client that is not waiting while 100 others are.
\<close>

theorem irc_waiting_consistent:
  assumes "irc_ok s" and "distinct (waiting s)"
    and "strncmp_eq 10 (chomp (msg_buffer b)) ''/stop_wait'' \<Longrightarrow> cid \<in> set (waiting s)"
  shows "(\<forall>s' out go. handle_message sock cid b port_msg junk_id junk_index s = Inr (s', out, go) \<longrightarrow>
      irc_ok s' \<and> distinct (waiting s')) \<and>
    (handle_message sock cid b port_msg junk_id junk_index s = Inl Waiting_overrun \<longleftrightarrow>
      waiting_count s = int MAX_WAITING \<and> cid \<notin> set (waiting s) \<and>
      strncmp_eq 5 (chomp (msg_buffer b)) ''/wait'' \<and> \<not> overrun (msg_buffer b) \<and> port_msg \<noteq> None \<and>
      \<not> atoi_overrun (msg_buffer port_msg) \<and> 0 < atoi (cstr (msg_buffer port_msg)))"
proof (intro conjI allI impI)
  have len: "nat (waiting_count s) \<le> length (waiting_clients s)" using assms(1) by (auto simp: irc_ok_def)
  have none: "find_waiting t s = None \<longleftrightarrow> t \<notin> set (waiting s)" for t
    using len by (auto simp: find_waiting_def find_index_take waiting_def)
  have gone: "irc_ok (remove_waiting_at i s) \<and> distinct (waiting (remove_waiting_at i s))" if "find_waiting t s = Some i" for t i
    using waiting_table.inv_del [OF assms(1), of t] waiting_table.del_distinct [OF assms(1,2), of t] that by (simp add: leave_waiting_def)
  have push: "irc_ok (push_waiting (cid, p) s) \<and> distinct (waiting (push_waiting (cid, p) s))"
    if "find_waiting cid s = None" "0 \<le> waiting_count s" "waiting_count s < int (length (waiting_clients s))" for p
  proof -
    have "length (waiting s) < MAX_WAITING" using that len assms(1) by (auto simp: waiting_def irc_ok_def)
    then show ?thesis
      using waiting_table.inv_add [OF assms(1)] waiting_table.add_distinct [OF assms(1) _ assms(2)] none that(1) by simp
  qed
  fix s' out go
  assume "handle_message sock cid b port_msg junk_id junk_index s = Inr (s', out, go)"
  then have "irc_ok s' \<and> distinct (waiting s')"
  proof (rule handle_message_cases)
    assume "s' = remove_client sock s"
    then show ?thesis
      using assms(1,2) by (auto simp: remove_client_def irc_ok_def waiting_def split: option.splits)
  qed (use assms gone push none in \<open>auto simp: msg_buffer_def\<close>)
  then show "irc_ok s'" "distinct (waiting s')" by simp_all
next
  let ?wait = "strncmp_eq 5 (chomp (msg_buffer b)) ''/wait'' \<and> \<not> overrun (msg_buffer b)"
  have none: "find_waiting cid s = None \<longleftrightarrow> cid \<notin> set (waiting s)"
    using assms(1) by (auto simp: irc_ok_def find_waiting_def find_index_take waiting_def)
  note faults = not_overrun_commands [OF assms(1)] and dw = do_wait_overrun [OF assms(1)]
  have "handle_message sock cid b port_msg junk_id junk_index s = Inl Waiting_overrun \<longleftrightarrow> ?wait \<and> do_wait cid port_msg s = Inl Waiting_overrun"
  proof (cases ?wait)
    case True
    then show ?thesis using handle_message_wait [of b] by (simp add: map_sum_Inl)
  next
    case False
    then show ?thesis
      using assms(3) faults(1,2) faults(3) [of cid junk_index] none
      unfolding handle_message_def msg_buffer_def Let_def by (auto simp: map_sum_Inl split: if_splits)
  qed
  then show "handle_message sock cid b port_msg junk_id junk_index s = Inl Waiting_overrun \<longleftrightarrow>
      waiting_count s = int MAX_WAITING \<and> cid \<notin> set (waiting s) \<and>
      strncmp_eq 5 (chomp (msg_buffer b)) ''/wait'' \<and> \<not> overrun (msg_buffer b) \<and> port_msg \<noteq> None \<and>
      \<not> atoi_overrun (msg_buffer port_msg) \<and> 0 < atoi (cstr (msg_buffer port_msg))"
    unfolding dw none by (cases port_msg) (auto simp: msg_buffer_def)
qed

theorem irc_waiting_consistent_witness:
  "\<exists>s' out. handle_message 4 ''ann'' (Some ''/wait'') (Some ''5000'') [] 0 (tables irc_init) = Inr (s', out, True) \<and>
     irc_ok s' \<and> distinct (waiting s')"
proof -
  let ?r = "handle_message 4 ''ann'' (Some ''/wait'') (Some ''5000'') [] 0 (tables irc_init)"
  have "map_sum id (\<lambda>r. snd (snd r)) ?r = Inr True" by code_simp
  then obtain s' out where r: "?r = Inr (s', out, True)" by (cases ?r) auto
  have ok: "irc_ok (tables irc_init)" "distinct (waiting (tables irc_init))"
    by (simp_all add: irc_ok_def waiting_def irc_init_def)
  have no: "\<not> strncmp_eq 10 (chomp (msg_buffer (Some ''/wait''))) ''/stop_wait''" by code_simp
  show ?thesis
    using irc_waiting_consistent [OF ok, of "Some ''/wait''" "''ann''" 4 "Some ''5000''" "[]" 0] r no by blast
qed

text \<open>The line a client sends to reach a waiting client.\<close>

lemma scan_connect_cmd:
  assumes "is_word t"
  shows "sscanf_vals fmt_connect_cmd (''/connect'' @ CHR '' '' # t) = [SStr t]"
proof -
  have "scan [WS, Conv_s None] (CHR '' '' # t @ []) = ([SStr t], False, [])"
    using assms scan_s_word [of t "[]" None "[]"] by (subst scan_ws_word) simp_all
  then show ?thesis
    unfolding sscanf_vals_def fmt_connect_cmd_def scan_Lits by simp
qed

lemma find_waiting_pushed:
  assumes "irc_ok s" and "find_waiting cid s = None" and "waiting_count s < int MAX_WAITING"
  shows "find_waiting cid (push_waiting (cid, p) s) = Some (nat (waiting_count s))"
proof -
  let ?k = "nat (waiting_count s)"
  have k: "?k < length (waiting_clients s)" "nat (waiting_count s + 1) = Suc ?k"
    using assms(1,3) by (auto simp: irc_ok_def nat_add_distrib)
  have "\<forall>i < ?k. waiting_clients s ! i \<noteq> cid" using assms(2) by (simp add: find_waiting_def find_index_None)
  then have "find (\<lambda>i. (waiting_clients s)[?k := cid] ! i = cid) ([0..<?k] @ [?k]) = Some ?k"
    using k(1) by (auto simp: find_Some_iff nth_append intro!: exI [of _ ?k])
  then show ?thesis
    using k(2) by (simp add: find_waiting_def find_index_def push_waiting_def Let_def)
qed

text \<open>
  A client that announces a listening port with \<open>/wait\<close> can be reached: right after it,
  \<open>/connect\<close> by another client is answered with the announced port, and the waiting client
  leaves the table, which is then as it was before.
\<close>

lemma irc_wait_then_connect:
  assumes "irc_ok s" and "is_word cid" and "length cid < ID_SIZE" and "cid \<notin> set (waiting s)"
    and "waiting_count s < int MAX_WAITING" and "0 < port" and "port \<le> 65535"
  shows "\<exists>s1 s2. do_wait cid (Some (show_nat port)) s = Inr (s1, ''Waiting for connection. (Ctrl+C to stop waiting)'' @ [CHR ''\<newline>'', NUL]) \<and>
    do_connect junk (''/connect'' @ CHR '' '' # cid) s1 =
      Inr (s2, connect_text cid (int port)) \<and>
    waiting s2 = waiting s"
proof -
  let ?s1 = "push_waiting (cid, int port) s" and ?k = "nat (waiting_count s)"
  have bounds: "?k < length (waiting_clients s)" "?k < length (clients s)" "nat (waiting_count s + 1) = Suc ?k"
    using assms(1,5) by (auto simp: irc_ok_def nat_add_distrib MAX_WAITING_def MAX_CLIENTS_def)
  have none: "find_waiting cid s = None"
    using assms(4) bounds(1) by (auto simp: find_waiting_def find_index_take waiting_def)
  have plen: "length (show_nat port) \<le> 5" using length_show_nat [of port 5] assms(7) by simp
  have num: "NUL \<notin> set (show_nat port)" using show_nat_is_word is_word_NUL by blast
  let ?buf = "zeroed IRC_BUFFER_SIZE (show_nat port)"
  have "cstr ?buf = show_nat port" using num by (rule cstr_zeroed)
  moreover have "take IRC_BUFFER_SIZE (show_nat port) = show_nat port" using plen by (simp add: IRC_BUFFER_SIZE_def)
  moreover have "\<not> atoi_overrun ?buf"
    using terminated_zeroed [of "show_nat port" IRC_BUFFER_SIZE] plen by (simp add: atoi_overrun_def IRC_BUFFER_SIZE_def)
  moreover have "atoi (show_nat port) = int port" using assms(7) by (intro atoi_show_nat) simp
  ultimately have w: "do_wait cid (Some (show_nat port)) s = Inr (?s1, ''Waiting for connection. (Ctrl+C to stop waiting)'' @ [CHR ''\<newline>'', NUL])"
    using none assms(1,5,6) by (simp add: do_wait_def Let_def irc_ok_def)
  have port: "cl_port (clients ?s1 ! ?k) = int port" using bounds(2) by (simp add: push_waiting_def Let_def)
  have c: "do_connect junk (''/connect'' @ CHR '' '' # cid) ?s1 =
      Inr (remove_waiting_at ?k ?s1, connect_text cid (int port))"
    unfolding do_connect_def scan_connect_cmd [OF assms(2)]
    using find_waiting_pushed [OF assms(1) none assms(5)] assms(3) port by simp
  have "irc_ok ?s1" using assms(1,5) by (auto simp: irc_ok_def push_waiting_def Let_def)
  then have "waiting (remove_waiting_at ?k ?s1) = take ?k (waiting ?s1) @ drop (Suc ?k) (waiting ?s1)"
    using bounds(3) by (intro waiting_remove_at) (simp_all add: push_waiting_def Let_def)
  also have "\<dots> = waiting s"
    using bounds(1,3) by (simp add: waiting_def push_waiting_def Let_def take_Suc_conv_app_nth)
  finally show ?thesis using w c by blast
qed

text \<open>
  C34. Ports are stored by position and are not moved when the waiting table closes a gap:
  after the first of two waiting clients has been connected to, a \<open>/connect\<close> to the second
  is answered with the port of the first.
\<close>

theorem irc_second_connect_wrong_port:
  assumes "irc_ok s" and "waiting_count s = 0"
    and "is_word a" "length a < ID_SIZE" and "is_word b" "length b < ID_SIZE"
  shows "\<exists>s2. do_connect junk (''/connect'' @ CHR '' '' # a) (push_waiting (b, q) (push_waiting (a, p) s)) = Inr (s2, connect_text a p) \<and>
    (\<exists>s3. do_connect junk (''/connect'' @ CHR '' '' # b) s2 = Inr (s3, connect_text b p))"
proof -
  let ?s = "push_waiting (b, q) (push_waiting (a, p) s)" and ?s2 = "remove_waiting_at 0 (push_waiting (b, q) (push_waiting (a, p) s))"
  have len: "0 < length (clients s)" "1 < length (clients s)" "2 \<le> length (waiting_clients s)"
    "0 < length (waiting_clients s)" "1 < length (waiting_clients s)"
    using assms(1) by (simp_all add: irc_ok_def MAX_CLIENTS_def MAX_WAITING_def)
  have st: "waiting_count ?s = 2" "waiting_clients ?s = (waiting_clients s)[0 := a, 1 := b]"
    "cl_port (clients ?s ! 0) = p"
    using assms(2) len by (simp_all add: push_waiting_def Let_def)
  have f1: "find_waiting a ?s = Some 0"
    using st(1,2) len by (simp add: find_waiting_def find_index_def numeral_2_eq_2 upt_rec)
  have rows: "shift_rows 0 2 (waiting_clients ?s) ! 0 = b"
    using st(2) len by (subst shift_rows_nth) simp_all
  have f2: "find_waiting b ?s2 = Some 0"
    using st(1) rows by (simp add: find_waiting_def find_index_def remove_waiting_at_def upt_rec)
  have p2: "cl_port (clients ?s2 ! 0) = p" using st(3) by (simp add: remove_waiting_at_def)
  have "do_connect junk (''/connect'' @ CHR '' '' # a) ?s = Inr (?s2, connect_text a p)"
    unfolding do_connect_def scan_connect_cmd [OF assms(3)] using f1 assms(4) st(3) by simp
  moreover have "do_connect junk (''/connect'' @ CHR '' '' # b) ?s2 = Inr (remove_waiting_at 0 ?s2, connect_text b p)"
    unfolding do_connect_def scan_connect_cmd [OF assms(5)] using f2 assms(6) p2 by simp
  ultimately show ?thesis by blast
qed

theorem irc_second_connect_wrong_port_witness:
  "\<exists>s2. do_connect [] (''/connect'' @ CHR '' '' # ''ann'') (push_waiting (''bob'', 6000) (push_waiting (''ann'', 5000) (tables irc_init))) =
       Inr (s2, connect_text ''ann'' 5000) \<and>
     (\<exists>s3. do_connect [] (''/connect'' @ CHR '' '' # ''bob'') s2 = Inr (s3, connect_text ''bob'' 5000))"
  by (rule irc_second_connect_wrong_port)
    (simp_all add: irc_ok_def irc_init_def waiting_def is_word_def isspace_def NUL_def ID_SIZE_def MAX_WAITING_def)

text \<open>
  C37. A \<open>/stop_wait\<close> of a client that is not waiting is not refused, when the variable that it
  leaves uninitialised holds no negative number: the count goes down by one. If others are
  waiting, one of them is lost from the table. If nobody is, the count becomes \<open>-1\<close> and the
  next \<open>/wait\<close> of any client stores before the array.
\<close>

theorem irc_stray_stop_wait:
  assumes "irc_ok s" and "cid \<notin> set (waiting s)" and "0 \<le> junk_index"
  shows "\<exists>s1. do_stop_wait junk_index cid s = Inr (s1, [CHR ''\<newline>''] @ ''Stopped waiting.'' @ [CHR ''\<newline>'']) \<and>
    waiting_count s1 = waiting_count s - 1 \<and>
    (if waiting_count s = 0 then \<forall>other. do_wait other (Some ''5000'') s1 = Inl Waiting_overrun
     else length (waiting s1) = length (waiting s) - 1 \<and> set (waiting s1) \<subseteq> set (waiting s))"
proof -
  let ?i = "nat junk_index" and ?n = "nat (waiting_count s)"
  let ?s1 = "remove_waiting_at ?i s"
  have len: "?n \<le> length (waiting_clients s)" using assms(1) by (auto simp: irc_ok_def)
  then have "find_waiting cid s = None" using assms(2) by (auto simp: find_waiting_def find_index_take waiting_def)
  then have one: "do_stop_wait junk_index cid s = Inr (?s1, [CHR ''\<newline>''] @ ''Stopped waiting.'' @ [CHR ''\<newline>''])"
    using assms(3) by (simp add: do_stop_wait_def)
  have c: "waiting_count ?s1 = waiting_count s - 1" by (simp add: remove_waiting_at_def)
  have "\<forall>other. do_wait other (Some ''5000'') ?s1 = Inl Waiting_overrun" if zero: "waiting_count s = 0"
  proof
    fix other
    have "find_waiting other ?s1 = None" using c zero by (simp add: find_waiting_def find_index_None)
    moreover have "atoi (cstr (zeroed IRC_BUFFER_SIZE (take IRC_BUFFER_SIZE ''5000''))) = 5000"
      "\<not> atoi_overrun (zeroed IRC_BUFFER_SIZE (take IRC_BUFFER_SIZE ''5000''))" by code_simp+
    ultimately show "do_wait other (Some ''5000'') ?s1 = Inl Waiting_overrun"
      using c zero by (simp add: do_wait_def Let_def)
  qed
  moreover have "length (waiting ?s1) = length (waiting s) - 1 \<and> set (waiting ?s1) \<subseteq> set (waiting s)" if some: "waiting_count s \<noteq> 0"
  proof (cases "?i < ?n")
    case True
    have "length (waiting s) = ?n" using len by (simp add: waiting_def)
    with True show ?thesis
      unfolding waiting_remove_at [OF assms(1) True] using set_take_subset [of ?i "waiting s"] set_drop_subset [of "Suc ?i" "waiting s"] by auto
  next
    case False
    then have "shift_rows ?i ?n (waiting_clients s) = waiting_clients s" by (intro shift_rows_beyond leI)
    moreover have "nat (waiting_count s - 1) = ?n - 1" by simp
    ultimately have "waiting ?s1 = take (?n - 1) (waiting s)"
      using len by (simp add: waiting_def remove_waiting_at_def min_def)
    moreover have "length (waiting s) = ?n" using len by (simp add: waiting_def)
    ultimately show ?thesis using set_take_subset [of "?n - 1" "waiting s"] by simp
  qed
  ultimately show ?thesis using one c by auto
qed

theorem irc_stray_stop_wait_witness:
  "\<exists>s1. do_stop_wait 0 ''ann'' (tables irc_init) = Inr (s1, [CHR ''\<newline>''] @ ''Stopped waiting.'' @ [CHR ''\<newline>'']) \<and>
     waiting_count s1 = - 1 \<and> (\<forall>other. do_wait other (Some ''5000'') s1 = Inl Waiting_overrun)"
  using irc_stray_stop_wait [of "tables irc_init" "''ann''" 0] by (simp add: irc_init_def irc_ok_def waiting_def)

text \<open>
  \<open>/quit\<close> ends the thread but leaves the client in the table: whoever connects later
  with the same id is told that it is taken.
\<close>

theorem irc_quit_keeps_id:
  assumes "ids_ok s" and "c \<in> set (active s)"
    and "handle_message sock (cl_id c) (Some ''/quit'') port_msg junk_id junk_index s = Inr (s1, out, go)"
  shows "\<not> go \<and> join sock' (cl_id c) s1 = Inr (s1, msg_taken, None)"
proof -
  let ?buf = "zeroed IRC_BUFFER_SIZE (take IRC_BUFFER_SIZE ''/quit'')"
  have l: "\<not> overrun ?buf" "strncmp_eq 5 (chomp ?buf) ''/quit''" "\<not> strncmp_eq 5 (chomp ?buf) ''/list''"
    "\<not> strncmp_eq 5 (chomp ?buf) ''/wait''" "\<not> strncmp_eq 8 (chomp ?buf) ''/connect''" "\<not> strncmp_eq 10 (chomp ?buf) ''/stop_wait''"
    "take IRC_BUFFER_SIZE ''/quit'' \<noteq> []"
    by code_simp+
  have s1: "s1 = s" "\<not> go" using assms(3) l by (simp_all add: handle_message_def Let_def)
  have cid: "good_id (cl_id c)" using assms(1,2) by (auto simp: ids_ok_def list_all_iff)
  let ?b = "zeroed ID_SIZE (take ID_SIZE (cl_id c))"
  have b: "take ID_SIZE (cl_id c) = cl_id c" using cid by (simp add: good_id_def)
  have "terminated ?b" unfolding b using cid by (intro terminated_zeroed) (simp add: good_id_def)
  then have no: "\<not> overrun ?b" by (simp add: overrun_def)
  have ch: "chomp ?b = cl_id c"
    unfolding b using cid by (auto simp: chomp_def good_id_def takeWhile_eq_all_conv)
  have "client_count s \<le> length (clients s)" using assms(1) by (simp add: ids_ok_def clients_ok_def)
  then have "find_index (\<lambda>d. cl_id d = cl_id c) (client_count s) (clients s) \<noteq> None"
    using assms(2) by (auto simp: find_index_take active_def)
  with no ch s1 show ?thesis by (simp add: join_def Let_def)
qed

theorem irc_quit_keeps_id_witness:
  "case join 4 ''ann'' (tables irc_init) of Inr (s, _, _) \<Rightarrow>
     (case handle_message 4 ''ann'' (Some ''/quit'') None [] 0 s of Inr (s1, out, go) \<Rightarrow>
        \<not> go \<and> join 9 ''ann'' s1 = Inr (s1, msg_taken, None))"
proof -
  let ?c = "\<lparr>cl_id = ''ann'', cl_socket = 4, cl_port = - 1, in_chat = CHR ''n''\<rparr>"
  let ?s = "add_client ?c (tables irc_init)"
  have cond: "\<not> overrun (zeroed ID_SIZE (take ID_SIZE ''ann''))" "chomp (zeroed ID_SIZE (take ID_SIZE ''ann'')) = ''ann''"
    "\<not> overrun (zeroed IRC_BUFFER_SIZE (take IRC_BUFFER_SIZE ''/quit''))"
    "strncmp_eq 5 (chomp (zeroed IRC_BUFFER_SIZE (take IRC_BUFFER_SIZE ''/quit''))) ''/quit''"
    "\<not> strncmp_eq 5 (chomp (zeroed IRC_BUFFER_SIZE (take IRC_BUFFER_SIZE ''/quit''))) ''/list''"
    "\<not> strncmp_eq 5 (chomp (zeroed IRC_BUFFER_SIZE (take IRC_BUFFER_SIZE ''/quit''))) ''/wait''"
    "\<not> strncmp_eq 8 (chomp (zeroed IRC_BUFFER_SIZE (take IRC_BUFFER_SIZE ''/quit''))) ''/connect''"
    "\<not> strncmp_eq 10 (chomp (zeroed IRC_BUFFER_SIZE (take IRC_BUFFER_SIZE ''/quit''))) ''/stop_wait''"
    "take IRC_BUFFER_SIZE ''/quit'' \<noteq> []" by code_simp+
  have j: "join 4 ''ann'' (tables irc_init) = Inr (?s, ''Client '' @ ''ann'' @ '' connected.'' @ [CHR ''\<newline>''], Some ''ann'')"
    using cond by (simp add: join_def Let_def irc_init_def find_index_def MAX_CLIENTS_def)
  have ok: "ids_ok ?s" using ids_ok_join [OF ids_ok_init j] .
  have mem: "?c \<in> set (active ?s)" by (simp add: active_def add_client_def irc_init_def MAX_CLIENTS_def take_Suc_conv_app_nth)
  have q: "handle_message 4 (cl_id ?c) (Some ''/quit'') None [] 0 ?s = Inr (?s, [], False)"
    using cond by (simp add: handle_message_def Let_def)
  from irc_quit_keeps_id [OF ok mem q, of 9] q show ?thesis by (simp add: j)
qed

end
