(* ===== verification/IrcClient.thy ===== *)
theory IrcClient
  imports IrcServer
begin

text \<open>
  The chat client, \<open>irc/client.c\<close>: the modes INFO, WAIT and CHAT, and one definition per
  handler: the interrupt handler, one turn of each receiving thread, the thread that
  accepts a peer, \<open>handle_connect\<close>, and one turn of the input loop of \<open>main\<close>. Each gives
  the new state and the system calls with an effect outside the process; what is printed
  on the terminal is left out. \<open>None\<close> is undefined behaviour, as in the server.
\<close>

section \<open>State\<close>

datatype mode = INFO | WAIT | CHAT

record chat_client =
  my_id :: string
  client_socket :: int
  listener_socket :: int
  peer_id :: string
  peer_socket :: int
  mode :: mode

datatype action = Send int bytes | Close int | Exit int

text \<open>What \<open>recv\<close> gave: the end of the stream, an error, or bytes.\<close>

datatype received = End_of_stream | Recv_error | Bytes bytes

section \<open>Handlers\<close>

definition handle_sigint :: "chat_client \<Rightarrow> chat_client \<times> action list" where
  "handle_sigint c =
     (case mode c of
        INFO \<Rightarrow> (c, [])
      | CHAT \<Rightarrow> (c, [Send (peer_socket c) ''LEAVE''])
      | WAIT \<Rightarrow> (c\<lparr>listener_socket := - 1, mode := INFO\<rparr>,
                 [Send (client_socket c) ''/stop_wait'', Close (listener_socket c)]))"

text \<open>
  One turn of \<open>receive_peer_messages\<close>; the flag says whether the thread goes on. The buffer
  is zeroed and \<open>strncmp\<close> looks at five bytes.
\<close>

definition leave_chat :: "chat_client \<Rightarrow> chat_client \<times> action list \<times> bool" where
  "leave_chat c = (c\<lparr>peer_socket := - 1, mode := INFO\<rparr>, [Close (peer_socket c)], False)"

definition receive_peer_message :: "received \<Rightarrow> chat_client \<Rightarrow> chat_client \<times> action list \<times> bool" where
  "receive_peer_message r c =
     (if peer_socket c < 0 then (c, [], False)
      else case r of
        End_of_stream \<Rightarrow> leave_chat c
      | Recv_error \<Rightarrow> leave_chat c
      | Bytes b \<Rightarrow>
          if b = [] then leave_chat c
          else if strncmp_eq 5 (cstr (zeroed IRC_BUFFER_SIZE (take IRC_BUFFER_SIZE b))) ''LEAVE'' then leave_chat c
          else (c, [], True))"

text \<open>
  \<open>wait_for_connection\<close>: the result of \<open>accept\<close> and the bytes the peer sends first. An id
  of 32 bytes fills the array, and \<open>strlen\<close> runs past it.
\<close>

definition wait_for_connection :: "int \<Rightarrow> bytes \<Rightarrow> chat_client \<Rightarrow> (chat_client \<times> action list) option" where
  "wait_for_connection new_socket first c =
     (if new_socket < 0 then Some (c, [])
      else let buf = zeroed ID_SIZE (take ID_SIZE first)
        in if \<not> terminated buf then None
           else if cstr buf = [] then Some (c, [Close new_socket])
           else Some (c\<lparr>peer_socket := new_socket, peer_id := cstr buf, mode := CHAT\<rparr>, []))"

text \<open>\<open>handle_connect\<close>: the results of \<open>socket\<close> and \<open>connect\<close>.\<close>

definition handle_connect :: "string \<Rightarrow> int \<Rightarrow> bool \<Rightarrow> chat_client \<Rightarrow> chat_client \<times> action list" where
  "handle_connect pid sock connected c =
     (if connected
      then (c\<lparr>peer_socket := sock, peer_id := pid, mode := CHAT\<rparr>, [Send sock (my_id c)])
      else (c\<lparr>peer_socket := - 1\<rparr>, [Close (peer_socket c)]))"

definition fmt_connect :: "directive list" where
  "fmt_connect = map Lit ''CONNECT'' @ [WS, Conv_s None, WS, Conv_s None, WS, Conv_d]"

text \<open>
  The locals of \<open>receive_server_messages\<close> after its \<open>sscanf\<close>: id, address and port, each with
  its junk value where nothing was read; the two \<open>%s\<close> have no width.
\<close>

definition scan_connect :: "string \<times> string \<times> int \<Rightarrow> string \<Rightarrow> string \<times> string \<times> int" where
  "scan_connect junk s =
     (let vs = sscanf_vals fmt_connect s
      in (case vs of SStr i # _ \<Rightarrow> i | _ \<Rightarrow> fst junk,
          case vs of _ # SStr a # _ \<Rightarrow> a | _ \<Rightarrow> fst (snd junk),
          case vs of _ # _ # SInt p # _ \<Rightarrow> p | _ \<Rightarrow> snd (snd junk)))"

definition INET_ADDRSTRLEN :: nat where
  "INET_ADDRSTRLEN = 16"

definition msg_waiting :: string where
  "msg_waiting = ''Waiting for connection. (Ctrl+C to stop waiting)'' @ [CHR ''\<newline>'']"

text \<open>
  One turn of \<open>receive_server_messages\<close>. \<open>dial\<close> is the network: the socket and the outcome
  of connecting to an address and port. A message that fills the buffer makes
  \<open>buffer[bytes_received] = '\0'\<close> store past it.
\<close>

definition receive_server_message ::
  "(string \<Rightarrow> int \<Rightarrow> int \<times> bool) \<Rightarrow> string \<times> string \<times> int \<Rightarrow> received \<Rightarrow> chat_client \<Rightarrow> (chat_client \<times> action list) option" where
  "receive_server_message dial junk r c =
     (case r of
        Bytes b \<Rightarrow>
          (if b = [] then Some (c, [Close (client_socket c), Exit 0])
           else if IRC_BUFFER_SIZE \<le> length b then None
           else let s = cstr (zeroed IRC_BUFFER_SIZE b)
             in if strncmp_eq 50 s msg_waiting then Some (c, [])
                else if strncmp_eq 7 s ''CONNECT''
                then (case scan_connect junk s of (pid, ip, port) \<Rightarrow>
                        if ID_SIZE \<le> length pid \<or> INET_ADDRSTRLEN \<le> length ip then None
                        else case dial ip port of (sock, ok) \<Rightarrow> Some (handle_connect pid sock ok c))
                else if strncmp_eq 29 s (''Client ID is already taken.'' @ [CHR ''\<newline>''])
                then Some (c, [Close (client_socket c), Exit 0])
                else Some (c, []))
      | _ \<Rightarrow> Some (c, [Close (client_socket c), Exit 0]))"

text \<open>
  One turn of the input loop of \<open>main\<close> on a line read by \<open>fgets\<close>. \<open>listening\<close> is the outcome
  of \<open>socket\<close>, \<open>bind\<close>, \<open>listen\<close> and \<open>getsockname\<close> of a \<open>/wait\<close>: the listener and, when
  \<open>bind\<close> and \<open>listen\<close> succeeded, the assigned port.
\<close>

definition user_line :: "int \<times> nat option \<Rightarrow> bytes \<Rightarrow> chat_client \<Rightarrow> chat_client \<times> action list" where
  "user_line listening b c =
     (let line = chomp b
      in if line = [] then (c, [])
         else if strncmp_eq 5 line ''/quit''
         then (c, (case mode c of CHAT \<Rightarrow> [Send (peer_socket c) ''LEAVE'', Close (peer_socket c)]
                   | WAIT \<Rightarrow> [Close (listener_socket c)] | INFO \<Rightarrow> []) @ [Close (client_socket c), Exit 0])
         else if mode c = CHAT then (c, [Send (peer_socket c) line])
         else if strncmp_eq 5 line ''/wait''
         then (if mode c = WAIT then (c, [])
               else (c\<lparr>mode := WAIT, listener_socket := fst listening\<rparr>,
                     Send (client_socket c) line #
                     (case snd listening of None \<Rightarrow> [] | Some port \<Rightarrow> [Send (client_socket c) (show_nat port)])))
         else if strncmp_eq 8 line ''/connect'' \<and> mode c = WAIT then (c, [])
         else (c, [Send (client_socket c) line]))"

definition chat_start :: "string \<Rightarrow> int \<Rightarrow> chat_client" where
  "chat_start name sock = \<lparr>my_id = name, client_socket = sock, listener_socket = 0, peer_id = [], peer_socket = - 1, mode = INFO\<rparr>"

text \<open>
  \<open>main\<close> up to the loop: the process ends, the name overruns its array, or the client starts
  and the name is sent. \<open>args\<close> is \<open>argv[1..]\<close>; \<open>listener_socket\<close> is not initialised.
\<close>

datatype irc_client_start = Start_exit | Start_overrun | Started chat_client "action list"

definition irc_client_main :: "string list \<Rightarrow> int \<Rightarrow> int \<Rightarrow> bool \<Rightarrow> bool \<Rightarrow> irc_client_start" where
  "irc_client_main args listener_junk sock connected thread_ok =
     (case args of
        [name] \<Rightarrow>
          (if ID_SIZE \<le> length name then Start_overrun
           else if sock = - 1 then Start_exit
           else if \<not> connected then Start_exit
           else if \<not> thread_ok then Start_exit
           else Started ((chat_start name sock)\<lparr>listener_socket := listener_junk\<rparr>) [Send sock name])
      | _ \<Rightarrow> Start_exit)"

section \<open>Lemmas\<close>

text \<open>In CHAT mode there is a peer socket, and outside it there is none.\<close>

definition chat_ok :: "chat_client \<Rightarrow> bool" where
  "chat_ok c \<longleftrightarrow> (mode c = CHAT \<longleftrightarrow> 0 \<le> peer_socket c)"

lemma leave_chat_ok: "chat_ok (fst (leave_chat c))"
  by (simp add: chat_ok_def leave_chat_def)

lemma scan_connect_text:
  assumes "is_word i" and "length i < ID_SIZE" and "port \<le> 65535"
  shows "scan_connect junk (connect_text i (int port)) = (i, ''127.0.0.1'', int port)"
proof -
  have plen: "length (show_nat port) \<le> 5" using length_show_nat [of port 5] assms(3) by simp
  have t: "connect_text i (int port) =
      ''CONNECT'' @ CHR '' '' # i @ CHR '' '' # ''127.0.0.1'' @ CHR '' '' # show_nat port @ [CHR ''\<newline>'']"
    unfolding connect_text_def using assms(2) plen
    by (subst snprintf_id) (simp_all add: IRC_BUFFER_SIZE_def ID_SIZE_def show_int_def)
  have ip: "is_word ''127.0.0.1''" by (simp add: is_word_def isspace_def NUL_def)
  have d: "scan [Conv_d] (show_nat port @ [CHR ''\<newline>'']) = ([SInt (int port)], False, [CHR ''\<newline>''])"
    using assms(3) by (subst scan_d_show) simp_all
  have c: "scan [Conv_s None, WS, Conv_d] (''127.0.0.1'' @ CHR '' '' # show_nat port @ [CHR ''\<newline>'']) =
      ([SStr ''127.0.0.1'', SInt (int port)], False, [CHR ''\<newline>''])"
    using ip by (subst scan_s_word) (simp_all only: d scan_ws_show Let_def split_conv, simp_all)
  have b: "scan [Conv_s None, WS, Conv_s None, WS, Conv_d]
      (i @ CHR '' '' # ''127.0.0.1'' @ CHR '' '' # show_nat port @ [CHR ''\<newline>'']) =
      ([SStr i, SStr ''127.0.0.1'', SInt (int port)], False, [CHR ''\<newline>''])"
    using assms(1) ip by (subst scan_s_word) (simp_all only: c scan_ws_word Let_def split_conv, simp_all)
  have "scan fmt_connect (connect_text i (int port)) = ([SStr i, SStr ''127.0.0.1'', SInt (int port)], False, [CHR ''\<newline>''])"
    unfolding t fmt_connect_def scan_Lits using assms(1) by (simp only: scan_ws_word b)
  then show ?thesis by (simp add: scan_connect_def sscanf_vals_def)
qed

lemma NUL_connect_text:
  assumes "is_word i" and "length i < ID_SIZE" and "port \<le> 65535"
  shows "NUL \<notin> set (connect_text i (int port))" "length (connect_text i (int port)) < IRC_BUFFER_SIZE"
    "take 7 (connect_text i (int port)) = ''CONNECT''"
proof -
  have plen: "length (show_nat port) \<le> 5" using length_show_nat [of port 5] assms(3) by simp
  have t: "connect_text i (int port) = ''CONNECT '' @ i @ '' 127.0.0.1 '' @ show_nat port @ [CHR ''\<newline>'']"
    unfolding connect_text_def using assms(2) plen
    by (subst snprintf_id) (simp_all add: IRC_BUFFER_SIZE_def ID_SIZE_def show_int_def)
  have "NUL \<notin> set i" "NUL \<notin> set (show_nat port)" using assms(1) show_nat_is_word is_word_NUL by blast+
  then show "NUL \<notin> set (connect_text i (int port))" unfolding t by (simp add: NUL_def)
  show "length (connect_text i (int port)) < IRC_BUFFER_SIZE"
    unfolding t using plen assms(2) by (simp add: IRC_BUFFER_SIZE_def ID_SIZE_def)
  show "take 7 (connect_text i (int port)) = ''CONNECT''" unfolding t by simp
qed

text \<open>A message of the server leaves the client alone or makes it dial.\<close>

lemma receive_server_message_cases:
  assumes "receive_server_message dial junk r c = Some (c', acts)"
  shows "c' = c \<or> (\<exists>pid ip port. c' = fst (handle_connect pid (fst (dial ip port)) (snd (dial ip port)) c))"
proof (cases r)
  case (Bytes b)
  obtain pid ip port where "scan_connect junk (cstr (zeroed IRC_BUFFER_SIZE b)) = (pid, ip, port)" by (metis prod.exhaust)
  with Bytes assms show ?thesis
    by (auto simp: receive_server_message_def Let_def split: if_splits prod.splits) (metis fst_conv snd_conv)+
qed (use assms in \<open>auto simp: receive_server_message_def\<close>)

section \<open>Properties\<close>

text \<open>
  The server's answer to a \<open>/connect\<close> is understood by the client: it dials the address
  and the port the answer was printed from, and if that succeeds it is in CHAT mode with
  the named peer on the new socket, to which it has sent its own id.
\<close>

lemma irc_connect_answer_opens_chat:
  assumes "is_word i" and "length i < ID_SIZE" and "port \<le> 65535" and "dial ''127.0.0.1'' (int port) = (sock, True)"
  shows "receive_server_message dial junk (Bytes (connect_text i (int port))) c =
    Some (c\<lparr>peer_socket := sock, peer_id := i, mode := CHAT\<rparr>, [Send sock (my_id c)])"
proof -
  let ?t = "connect_text i (int port)"
  note n = NUL_connect_text [OF assms(1-3)]
  have cs: "cstr (zeroed IRC_BUFFER_SIZE ?t) = ?t" "cstr ?t = ?t" using n(1) by (simp_all add: cstr_no_NUL)
  have "\<not> strncmp_eq 50 ?t msg_waiting"
  proof
    assume "strncmp_eq 50 ?t msg_waiting"
    then have "take 50 ?t = take 50 (cstr msg_waiting)" by (simp add: strncmp_eq_def cs)
    then have "take 7 (take 50 ?t) = take 7 (take 50 (cstr msg_waiting))" by (rule arg_cong)
    with n(3) show False by (simp add: msg_waiting_def cstr_def NUL_def)
  qed
  moreover have "strncmp_eq 7 ?t ''CONNECT''" using n(3) by (simp add: strncmp_eq_def cs) (simp add: cstr_def NUL_def)
  moreover have "?t \<noteq> []" using n(3) by auto
  ultimately show ?thesis
    using n(2) cs scan_connect_text [OF assms(1-3), of junk] assms(2,4)
    by (simp add: receive_server_message_def Let_def INET_ADDRSTRLEN_def handle_connect_def not_le)
qed

text \<open>
  C21. Mode and peer socket agree: the client is in CHAT mode exactly when it has a peer
  socket. The interrupt handler, the turn of the peer thread, the accepted peer and the input
  loop keep this, and \<open>handle_connect\<close> keeps it when it connects. When it fails to connect it
  keeps it exactly outside CHAT mode: a client that is chatting loses its socket and stays in
  CHAT mode. A message of the server breaks the agreement in no other way.
\<close>

theorem irc_client_mode_invariant:
  assumes "chat_ok c" and "\<And>ip port sock. dial ip port = (sock, True) \<Longrightarrow> 0 \<le> sock"
  shows "chat_ok (fst (handle_sigint c)) \<and> chat_ok (fst (receive_peer_message r c)) \<and> chat_ok (fst (user_line l b c)) \<and>
    (wait_for_connection new first c = Some (c', acts) \<longrightarrow> chat_ok c') \<and>
    (0 \<le> sock \<longrightarrow> chat_ok (fst (handle_connect pid sock ok c)) = (ok \<or> mode c \<noteq> CHAT)) \<and>
    (receive_server_message dial junk r' c = Some (c'', acts'') \<longrightarrow>
       chat_ok c'' \<or> mode c = CHAT \<and> (\<exists>pid ip port. \<not> snd (dial ip port) \<and> c'' = fst (handle_connect pid (fst (dial ip port)) False c)))"
proof -
  have "chat_ok (fst (handle_sigint c))"
    using assms(1) by (auto simp: handle_sigint_def chat_ok_def split: mode.splits)
  moreover have "chat_ok (fst (receive_peer_message r c))"
    using assms(1) leave_chat_ok [of c] by (auto simp: receive_peer_message_def split: received.splits)
  moreover have "chat_ok (fst (user_line l b c))"
    using assms(1) by (cases "mode c") (simp_all add: user_line_def Let_def chat_ok_def)
  moreover have "wait_for_connection new first c = Some (c', acts) \<longrightarrow> chat_ok c'"
    using assms(1) by (auto simp: wait_for_connection_def Let_def chat_ok_def split: if_splits)
  moreover have dialled: "chat_ok (fst (handle_connect pid sock ok c)) = (ok \<or> mode c \<noteq> CHAT)" if "ok \<Longrightarrow> 0 \<le> sock" for pid sock ok
    using that by (simp add: handle_connect_def chat_ok_def)
  moreover have "chat_ok c'' \<or> mode c = CHAT \<and> (\<exists>pid ip port. \<not> snd (dial ip port) \<and> c'' = fst (handle_connect pid (fst (dial ip port)) False c))"
    if "receive_server_message dial junk r' c = Some (c'', acts'')"
    using receive_server_message_cases [OF that]
  proof
    assume "\<exists>pid ip port. c'' = fst (handle_connect pid (fst (dial ip port)) (snd (dial ip port)) c)"
    then obtain pid ip port where c'': "c'' = fst (handle_connect pid (fst (dial ip port)) (snd (dial ip port)) c)" by blast
    have "snd (dial ip port) \<Longrightarrow> 0 \<le> fst (dial ip port)" using assms(2) [of ip port "fst (dial ip port)"] by (simp add: prod_eq_iff)
    from dialled [OF this] c'' show ?thesis by (cases "snd (dial ip port)") auto
  qed (use assms(1) in simp)
  ultimately show ?thesis by blast
qed

theorem irc_client_mode_invariant_witness:
  "chat_ok (fst (handle_connect ''ann'' 7 True (chat_start ''bob'' 3))) \<and>
    (\<not> chat_ok (fst (handle_connect ''eve'' 8 False (fst (handle_connect ''ann'' 7 True (chat_start ''bob'' 3))))))"
proof -
  let ?c = "fst (handle_connect ''ann'' 7 True (chat_start ''bob'' 3))"
  have start: "chat_ok (chat_start ''bob'' 3)" by (simp add: chat_ok_def chat_start_def)
  have dial: "(\<lambda>ip port. (7, True)) ip port = (sock, True) \<Longrightarrow> 0 \<le> sock" for ip :: string and port sock :: int by simp
  have one: "chat_ok ?c"
    using irc_client_mode_invariant [where dial = "\<lambda>ip port. (7, True)" and ok = True and sock = 7 and pid = "''ann''", OF start dial] by simp
  have "mode ?c = CHAT" by (simp add: handle_connect_def)
  then show ?thesis
    using one irc_client_mode_invariant [where dial = "\<lambda>ip port. (7, True)" and ok = False and sock = 8 and pid = "''eve''", OF one dial] by simp
qed



end
