(* ===== verification/IrcSystem.thy ===== *)
theory IrcSystem
  imports IrcClient
begin

text \<open>
  The chat programs together: a line typed at a client, what the client sends to the server,
  the command the server runs, and the answer the client receives, as one step. The main
  result is the rendezvous of two clients through the server.
\<close>

section \<open>A line and its answer\<close>

text \<open>The messages among the actions of a client that go to the server.\<close>

fun to_server :: "int \<Rightarrow> action list \<Rightarrow> bytes list" where
  "to_server fd [] = []"
| "to_server fd (Send s b # as) = (if s = fd then b # to_server fd as else to_server fd as)"
| "to_server fd (_ # as) = to_server fd as"

text \<open>
  The connection is a stream: how the messages that a client sends are divided among the
  \<open>recv\<close> calls of the server is not determined by the programs. \<open>segs\<close> is that division.
\<close>

definition arrives :: "bytes list \<Rightarrow> bytes list \<Rightarrow> bool" where
  "arrives sent segs \<longleftrightarrow> concat segs = concat sent \<and> [] \<notin> set segs"

datatype exchange_end = Server_halted irc_halt | Client_overrun | Not_a_division

text \<open>
  The client on the server's socket \<open>k\<close> reads the line \<open>b\<close>. What the first \<open>recv\<close> of the server
  returns is its command, what the second one returns is what a \<open>/wait\<close> reads as the port. The
  answer, which the server sends with one call, is taken to arrive in one piece. The new
  client, the server, and what the client did on the answer.
\<close>

definition exchange ::
  "(string \<Rightarrow> int \<Rightarrow> int \<times> bool) \<Rightarrow> string \<times> string \<times> int \<Rightarrow> string \<Rightarrow> int \<Rightarrow> int \<Rightarrow> int \<times> nat option \<Rightarrow> bytes \<Rightarrow> bytes list \<Rightarrow>
     chat_client \<Rightarrow> irc_server \<Rightarrow> exchange_end + chat_client \<times> irc_server \<times> action list" where
  "exchange dial junk junk_id junk_index k listening b segs c v =
     (case user_line listening b c of
        (c1, acts) \<Rightarrow>
          if \<not> arrives (to_server (client_socket c) acts) segs then Inl Not_a_division
          else case segs of
            [] \<Rightarrow> Inr (c1, v, [])
          | m # ms \<Rightarrow>
              (case irc_step (Message k (Some m) (case ms of [] \<Rightarrow> None | d # _ \<Rightarrow> Some d) junk_id junk_index) v of
                 Inl h \<Rightarrow> Inl (Server_halted h)
               | Inr (v1, (_, out)) \<Rightarrow>
                   (case receive_server_message dial junk (Bytes out) c1 of
                      None \<Rightarrow> Inl Client_overrun
                    | Some (c2, acts2) \<Rightarrow> Inr (c2, v1, acts2))))"

lemma exchange_answered:
  assumes "user_line listening b c = (c1, acts)" and "arrives (to_server (client_socket c) acts) (m # ms)"
    and "irc_step (Message k (Some m) (case ms of [] \<Rightarrow> None | d # _ \<Rightarrow> Some d) ji jx) v = Inr (v1, (k', out))"
    and "receive_server_message dial junk (Bytes out) c1 = Some (c2, acts2)"
  shows "exchange dial junk ji jx k listening b (m # ms) c v = Inr (c2, v1, acts2)"
  using assms by (simp add: exchange_def del: irc_step.simps)

lemma exchange_halted:
  assumes "user_line listening b c = (c1, acts)" and "arrives (to_server (client_socket c) acts) (m # ms)"
    and "irc_step (Message k (Some m) (case ms of [] \<Rightarrow> None | d # _ \<Rightarrow> Some d) ji jx) v = Inl h"
  shows "exchange dial junk ji jx k listening b (m # ms) c v = Inl (Server_halted h)"
  using assms by (simp add: exchange_def del: irc_step.simps)

section \<open>Lines\<close>

lemma chomp_line: "NUL \<notin> set t \<Longrightarrow> CHR ''\<newline>'' \<notin> set t \<Longrightarrow> chomp (t @ [CHR ''\<newline>'']) = t"
proof -
  assume t: "NUL \<notin> set t" "CHR ''\<newline>'' \<notin> set t"
  then have "cstr (t @ [CHR ''\<newline>'']) = t @ [CHR ''\<newline>'']" by (intro cstr_no_NUL) (simp add: NUL_def)
  moreover have "takeWhile (\<lambda>c. c \<noteq> CHR ''\<newline>'') (t @ [CHR ''\<newline>'']) = t" using t(2) by (subst takeWhile_append2) auto
  ultimately show ?thesis by (simp add: chomp_def)
qed

lemma chomp_zeroed: "NUL \<notin> set t \<Longrightarrow> CHR ''\<newline>'' \<notin> set t \<Longrightarrow> chomp (zeroed n t) = t"
  by (auto simp: chomp_def takeWhile_eq_all_conv)

lemma word_no_newline: "is_word t \<Longrightarrow> CHR ''\<newline>'' \<notin> set t"
  unfolding is_word_def using newline_isspace(1) by metis

text \<open>A command with an argument is recognised by its first characters.\<close>

lemma strncmp_prefix: "NUL \<notin> set a \<Longrightarrow> NUL \<notin> set p \<Longrightarrow> strncmp_eq (length p) (p @ a) p"
  by (simp add: strncmp_eq_def cstr_no_NUL)

definition connect_line :: "string \<Rightarrow> string" where
  "connect_line cid = ''/connect'' @ CHR '' '' # cid"

lemma connect_line_text:
  assumes "is_word cid"
  shows "NUL \<notin> set (connect_line cid)" "CHR ''\<newline>'' \<notin> set (connect_line cid)"
  using assms is_word_NUL [OF assms] word_no_newline [OF assms] by (auto simp: connect_line_def NUL_def)

lemma connect_line_command:
  assumes "is_word cid"
  shows "strncmp_eq 8 (connect_line cid) ''/connect''" "\<not> strncmp_eq 5 (connect_line cid) ''/list''"
    "\<not> strncmp_eq 5 (connect_line cid) ''/wait''" "\<not> strncmp_eq 5 (connect_line cid) ''/quit''"
  using connect_line_text(1) [OF assms]
  by (simp_all add: strncmp_eq_def cstr_no_NUL) (simp_all add: connect_line_def cstr_def NUL_def)

lemma user_connect:
  assumes "is_word cid" and "mode c = INFO"
  shows "user_line l (connect_line cid @ [CHR ''\<newline>'']) c = (c, [Send (client_socket c) (connect_line cid)])"
proof -
  have "connect_line cid \<noteq> []" by (simp add: connect_line_def)
  then show ?thesis
    using assms(2) connect_line_text [OF assms(1)] connect_line_command [OF assms(1)]
    by (simp add: user_line_def Let_def chomp_line)
qed

lemma server_connect:
  assumes "is_word cid" and "length cid < ID_SIZE"
  shows "handle_message sock me (Some (connect_line cid)) pm ji jx s =
    map_sum id (\<lambda>(s', out). (s', out, True)) (do_connect ji (connect_line cid) s)"
proof -
  let ?t = "connect_line cid"
  have len: "length ?t < IRC_BUFFER_SIZE" using assms(2) by (simp add: connect_line_def ID_SIZE_def IRC_BUFFER_SIZE_def)
  then have t: "take IRC_BUFFER_SIZE ?t = ?t" by simp
  have "\<not> overrun (zeroed IRC_BUFFER_SIZE ?t)" using terminated_zeroed [OF len] by (simp add: overrun_def)
  moreover have "chomp (zeroed IRC_BUFFER_SIZE ?t) = ?t" using connect_line_text [OF assms(1)] by (rule chomp_zeroed)
  moreover have "?t \<noteq> []" by (simp add: connect_line_def)
  ultimately show ?thesis
    unfolding handle_message_def using t connect_line_command [OF assms(1)] by (simp add: Let_def)
qed

lemma user_wait:
  assumes "mode c = INFO"
  shows "user_line (fd, Some port) (''/wait'' @ [CHR ''\<newline>'']) c =
    (c\<lparr>mode := WAIT, listener_socket := fd\<rparr>, [Send (client_socket c) ''/wait'', Send (client_socket c) (show_nat port)])"
proof -
  have "chomp (''/wait'' @ [CHR ''\<newline>'']) = ''/wait''" "strncmp_eq 5 ''/wait'' ''/wait''" "\<not> strncmp_eq 5 ''/wait'' ''/quit''"
    by code_simp+
  then show ?thesis using assms by (simp add: user_line_def Let_def)
qed

text \<open>Whatever follows \<open>/wait\<close> in the same piece is part of the command.\<close>

lemma server_wait:
  assumes "length t < 1000" and "NUL \<notin> set t" and "CHR ''\<newline>'' \<notin> set t"
  shows "handle_message sock me (Some (''/wait'' @ t)) pm ji jx s = map_sum id (\<lambda>(s', out). (s', out, True)) (do_wait me pm s)"
proof -
  let ?t = "''/wait'' @ t"
  have len: "length ?t < IRC_BUFFER_SIZE" using assms(1) by (simp add: IRC_BUFFER_SIZE_def)
  then have b: "msg_buffer (Some ?t) = zeroed IRC_BUFFER_SIZE ?t" by (simp add: msg_buffer_def)
  have "\<not> overrun (zeroed IRC_BUFFER_SIZE ?t)" using terminated_zeroed [OF len] by (simp add: overrun_def)
  moreover have "chomp (zeroed IRC_BUFFER_SIZE ?t) = ?t" using assms(2,3) by (intro chomp_zeroed) (simp_all add: NUL_def)
  moreover have "strncmp_eq 5 ?t ''/wait''" using strncmp_prefix [of t "''/wait''"] assms(2) by (simp add: NUL_def numeral_eq_Suc)
  ultimately show ?thesis by (intro handle_message_wait) (simp_all only: b not_False_eq_True)
qed

lemma client_hears_waiting:
  "receive_server_message dial junk (Bytes (''Waiting for connection. (Ctrl+C to stop waiting)'' @ [CHR ''\<newline>'', NUL])) c = Some (c, [])"
proof -
  let ?m = "''Waiting for connection. (Ctrl+C to stop waiting)'' @ [CHR ''\<newline>'', NUL]"
  have "strncmp_eq 50 (cstr (zeroed IRC_BUFFER_SIZE ?m)) msg_waiting" "length ?m < IRC_BUFFER_SIZE" by code_simp+
  then show ?thesis by (simp add: receive_server_message_def Let_def)
qed

lemma peer_arrives:
  assumes "is_word pid" and "length pid < ID_SIZE" and "0 \<le> new"
  shows "wait_for_connection new pid c = Some (c\<lparr>peer_socket := new, peer_id := pid, mode := CHAT\<rparr>, [])"
proof -
  have "take ID_SIZE pid = pid" using assms(2) by simp
  moreover have "terminated (zeroed ID_SIZE pid)" using assms(2) by (rule terminated_zeroed)
  moreover have "cstr (zeroed ID_SIZE pid) = pid" using is_word_NUL [OF assms(1)] by (rule cstr_zeroed)
  moreover have "pid \<noteq> []" using assms(1) by (simp add: is_word_def)
  ultimately show ?thesis using assms(3) by (simp add: wait_for_connection_def Let_def)
qed

section \<open>Properties\<close>

text \<open>
  C10. Two clients find each other through the server, in any state of its tables with room,
  when every message arrives by itself: the first types \<open>/wait\<close> and is in WAIT mode; the second
  types \<open>/connect\<close> with the id of the first, dials the port the first listens on and sends its
  own id there; when the first accepts, both are in CHAT mode, each with the id of the other
  and the socket between them, and the waiting table of the server is as it was before. The
  programs do not ensure that condition: the client sends \<open>/wait\<close> and the port with two calls
  in a row, and when they arrive in one piece the server takes both for the command and waits
  for the port inside its critical section.
\<close>

theorem irc_rendezvous:
  assumes "irc_ok (tables v)" and "my_id a \<notin> set (waiting (tables v))" and "waiting_count (tables v) < int MAX_WAITING"
    and "is_word (my_id a)" "length (my_id a) < ID_SIZE" and "is_word (my_id b)" "length (my_id b) < ID_SIZE"
    and "serving v ka = Some (my_id a)" and "serving v kb = Some (my_id b)"
    and "mode a = INFO" and "mode b = INFO" and "0 < port" "port \<le> 65535"
    and "dial ''127.0.0.1'' (int port) = (sock, True)" and "0 \<le> new"
  shows "(\<exists>a1 v1 b2 v2 a2.
      exchange dial junk ji jx ka (fd, Some port) (''/wait'' @ [CHR ''\<newline>'']) [''/wait'', show_nat port] a v = Inr (a1, v1, []) \<and> mode a1 = WAIT \<and>
      exchange dial junk ji jx kb l (connect_line (my_id a) @ [CHR ''\<newline>'']) [connect_line (my_id a)] b v1 = Inr (b2, v2, [Send sock (my_id b)]) \<and>
      wait_for_connection new (my_id b) a1 = Some (a2, []) \<and>
      mode a2 = CHAT \<and> peer_id a2 = my_id b \<and> peer_socket a2 = new \<and>
      mode b2 = CHAT \<and> peer_id b2 = my_id a \<and> peer_socket b2 = sock \<and> waiting (tables v2) = waiting (tables v)) \<and>
    exchange dial junk ji jx ka (fd, Some port) (''/wait'' @ [CHR ''\<newline>'']) [''/wait'' @ show_nat port] a v = Inl (Server_halted Port_awaited)"
proof
  note wait = user_wait [OF assms(10), of fd port]
  from irc_wait_then_connect [OF assms(1,4,5,2,3,12,13), of ji] obtain s1 s2 where
    w: "do_wait (my_id a) (Some (show_nat port)) (tables v) = Inr (s1, ''Waiting for connection. (Ctrl+C to stop waiting)'' @ [CHR ''\<newline>'', NUL])"
    and c: "do_connect ji (connect_line (my_id a)) s1 = Inr (s2, connect_text (my_id a) (int port))"
    and same: "waiting s2 = waiting (tables v)"
    unfolding connect_line_def by blast
  let ?a1 = "a\<lparr>mode := WAIT, listener_socket := fd\<rparr>" and ?v1 = "v\<lparr>tables := s1\<rparr>" and ?v2 = "v\<lparr>tables := s2\<rparr>"
  let ?b2 = "b\<lparr>peer_socket := sock, peer_id := my_id a, mode := CHAT\<rparr>" and ?a2 = "?a1\<lparr>peer_socket := new, peer_id := my_id b, mode := CHAT\<rparr>"
  have "irc_step (Message ka (Some ''/wait'') (case [show_nat port] of [] \<Rightarrow> None | d # _ \<Rightarrow> Some d) ji jx) v =
      Inr (?v1, (ka, ''Waiting for connection. (Ctrl+C to stop waiting)'' @ [CHR ''\<newline>'', NUL]))"
    using assms(8) w server_wait [of "[]" ka "my_id a"] by simp
  from exchange_answered [OF wait _ this client_hears_waiting]
  have "exchange dial junk ji jx ka (fd, Some port) (''/wait'' @ [CHR ''\<newline>'']) [''/wait'', show_nat port] a v = Inr (?a1, ?v1, [])"
    using not_sym [OF show_nat_nonempty [of port]] by (simp add: arrives_def)
  moreover have "irc_step (Message kb (Some (connect_line (my_id a))) (case [] of [] \<Rightarrow> None | d # _ \<Rightarrow> Some d) ji jx) ?v1 =
      Inr (?v2, (kb, connect_text (my_id a) (int port)))"
    using assms(9) c server_connect [OF assms(4,5), of kb "my_id b"] by simp
  from exchange_answered [OF user_connect [OF assms(4,11)] _ this irc_connect_answer_opens_chat [where dial = dial, OF assms(4,5,13,14)]]
  have "exchange dial junk ji jx kb l (connect_line (my_id a) @ [CHR ''\<newline>'']) [connect_line (my_id a)] b ?v1 = Inr (?b2, ?v2, [Send sock (my_id b)])"
    by (simp add: arrives_def connect_line_def)
  moreover note peer_arrives [OF assms(6,7,15), of ?a1]
  ultimately show "\<exists>a1 v1 b2 v2 a2.
      exchange dial junk ji jx ka (fd, Some port) (''/wait'' @ [CHR ''\<newline>'']) [''/wait'', show_nat port] a v = Inr (a1, v1, []) \<and> mode a1 = WAIT \<and>
      exchange dial junk ji jx kb l (connect_line (my_id a) @ [CHR ''\<newline>'']) [connect_line (my_id a)] b v1 = Inr (b2, v2, [Send sock (my_id b)]) \<and>
      wait_for_connection new (my_id b) a1 = Some (a2, []) \<and>
      mode a2 = CHAT \<and> peer_id a2 = my_id b \<and> peer_socket a2 = new \<and>
      mode b2 = CHAT \<and> peer_id b2 = my_id a \<and> peer_socket b2 = sock \<and> waiting (tables v2) = waiting (tables v)"
    using same by (intro exI [of _ ?a1] exI [of _ ?v1] exI [of _ ?b2] exI [of _ ?v2] exI [of _ ?a2]) simp
  have "find_waiting (my_id a) (tables v) = None"
    using assms(1,2) by (auto simp: irc_ok_def find_waiting_def find_index_take waiting_def)
  then have "do_wait (my_id a) None (tables v) = Inl Port_awaited" by (simp add: do_wait_def)
  moreover have "length (show_nat port) < 1000" using length_show_nat [of port 5] assms(13) by simp
  ultimately have "irc_step (Message ka (Some (''/wait'' @ show_nat port)) (case [] of [] \<Rightarrow> None | d # _ \<Rightarrow> Some d) ji jx) v = Inl Port_awaited"
    using assms(8) server_wait [of "show_nat port"] is_word_NUL [OF show_nat_is_word] word_no_newline [OF show_nat_is_word] by simp
  from exchange_halted [OF wait _ this]
  show "exchange dial junk ji jx ka (fd, Some port) (''/wait'' @ [CHR ''\<newline>'']) [''/wait'' @ show_nat port] a v = Inl (Server_halted Port_awaited)"
    by (simp add: arrives_def)
qed

definition two_served :: irc_server where
  "two_served = irc_init\<lparr>serving := [4 \<mapsto> ''ann'', 5 \<mapsto> ''bob'']\<rparr>"

theorem irc_rendezvous_witness:
  "(\<exists>a1 v1 b2 v2 a2.
      exchange (\<lambda>ip p. (7, p = 5000)) ([], [], 0) [] 0 4 (6, Some 5000) (''/wait'' @ [CHR ''\<newline>'']) [''/wait'', show_nat 5000] (chat_start ''ann'' 3) two_served =
        Inr (a1, v1, []) \<and> mode a1 = WAIT \<and>
      exchange (\<lambda>ip p. (7, p = 5000)) ([], [], 0) [] 0 5 (0, None) (connect_line (my_id (chat_start ''ann'' 3)) @ [CHR ''\<newline>''])
        [connect_line (my_id (chat_start ''ann'' 3))] (chat_start ''bob'' 3) v1 = Inr (b2, v2, [Send 7 (my_id (chat_start ''bob'' 3))]) \<and>
      wait_for_connection 8 (my_id (chat_start ''bob'' 3)) a1 = Some (a2, []) \<and>
      mode a2 = CHAT \<and> peer_id a2 = my_id (chat_start ''bob'' 3) \<and> peer_socket a2 = 8 \<and>
      mode b2 = CHAT \<and> peer_id b2 = my_id (chat_start ''ann'' 3) \<and> peer_socket b2 = 7 \<and>
      waiting (tables v2) = waiting (tables two_served)) \<and>
    exchange (\<lambda>ip p. (7, p = 5000)) ([], [], 0) [] 0 4 (6, Some 5000) (''/wait'' @ [CHR ''\<newline>'']) [''/wait'' @ show_nat 5000] (chat_start ''ann'' 3) two_served =
      Inl (Server_halted Port_awaited)"
  by (rule irc_rendezvous)
    (simp_all add: two_served_def irc_ok_def irc_init_def waiting_def is_word_def isspace_def NUL_def ID_SIZE_def MAX_WAITING_def chat_start_def)

end
