(* ===== verification/HttpsClient.thy ===== *)
theory HttpsClient
  imports CText
begin

text \<open>
  The web client, \<open>https/client.c\<close>: \<open>parse_url\<close>, the request text, the receive loop with
  its search for the end of the header, the TLS context, the certificate check with the loop
  that adds the certificates of the peer, the two fetch functions, and \<open>main\<close> with its exit
  status. OpenSSL and the sockets are parameters: the results of
  their calls are the fields of the records \<open>tls\<close> and \<open>host_env\<close>. A function that ends without a
  \<open>return\<close> returns whatever its caller finds; the \<open>junk\<close> arguments stand for that.
\<close>

section \<open>URLs\<close>

datatype url_error = Path_missing | Invalid_port | Port_443_over_http | Port_80_over_https

record url =
  scheme :: string
  ip :: string
  port :: int
  path :: string

definition parse_url :: "string \<Rightarrow> url_error + url" where
  "parse_url s =
     (let (sch, dport, start) =
        (if strncmp_eq 7 s ''http://'' then (''http'', 80, drop 7 s)
         else if strncmp_eq 8 s ''https://'' then (''https'', 443, drop 8 s)
         else (''https'', 443, s))
      in case strchr (CHR ''/'') start of
        None \<Rightarrow> Inl Path_missing
      | Some slash \<Rightarrow>
          (let pth = drop (Suc slash) start;
               hp = (case strchr (CHR '':'') start of
                       Some colon \<Rightarrow> if colon < slash then (take colon start, atoi (drop (Suc colon) start))
                                    else (take slash start, dport)
                     | None \<Rightarrow> (take slash start, dport))
           in if snd hp \<le> 0 then Inl Invalid_port
              else if snd hp = 443 \<and> sch = ''http'' then Inl Port_443_over_http
              else if snd hp = 80 \<and> sch = ''https'' then Inl Port_80_over_https
              else Inr \<lparr>scheme = sch, ip = fst hp, port = snd hp, path = pth\<rparr>))"

section \<open>The request\<close>

definition HTTPS_BUFFER_SIZE :: nat where
  "HTTPS_BUFFER_SIZE = 1024"

definition CR :: char where
  "CR = CHR 0x0D"

definition LF :: char where
  "LF = CHR ''\<newline>''"

definition crlf :: string where
  "crlf = [CR, LF]"

definition full_request :: "bool \<Rightarrow> string \<Rightarrow> string \<Rightarrow> string" where
  "full_request header_only pth host =
     (if header_only then ''HEAD'' else ''GET'') @ '' /'' @ pth @ '' HTTP/1.1'' @ crlf @
     ''Host: '' @ host @ crlf @ ''Connection: close'' @ crlf @ crlf"

definition http_request :: "bool \<Rightarrow> string \<Rightarrow> string \<Rightarrow> string" where
  "http_request header_only pth host = snprintf HTTPS_BUFFER_SIZE (full_request header_only pth host)"

definition port_text :: "int \<Rightarrow> string" where
  "port_text p = snprintf 6 (show_int p)"

section \<open>The response\<close>

text \<open>The position at which the loop over a buffer sees the end of the header.\<close>

definition header_end :: "bytes \<Rightarrow> nat option" where
  "header_end b =
     find (\<lambda>i. 3 < i \<and> b ! i = LF \<and> b ! (i - 1) = CR \<and> b ! (i - 2) = LF \<and> b ! (i - 3) = CR) [0..<length b]"

text \<open>
  The loop over the results of \<open>recv\<close> or \<open>SSL_read\<close> (an empty one ends it): what is printed
  and what is written to \<open>output.dat\<close>.
\<close>

fun receive_loop :: "bool \<Rightarrow> bytes list \<Rightarrow> bytes \<times> bytes" where
  "receive_loop header_only [] = ([], [])"
| "receive_loop header_only (b # bs) =
     (if b = [] then ([], [])
      else if header_only
      then (case header_end b of
              Some i \<Rightarrow> (take (Suc i) b, [])
            | None \<Rightarrow> (b @ fst (receive_loop header_only bs), snd (receive_loop header_only bs)))
      else (fst (receive_loop header_only bs), b @ snd (receive_loop header_only bs)))"

record fetch =
  ret :: int
  request_sent :: "string option"
  printed :: bytes
  saved :: "bytes option"

text \<open>A fetch that ends early: its return value and the request when that was sent.\<close>

definition no_response :: "int \<Rightarrow> string option \<Rightarrow> fetch" where
  "no_response r sent = \<lparr>ret = r, request_sent = sent, printed = [], saved = None\<rparr>"

text \<open>What both functions do once the request is out: open the file unless only the header
  is wanted, and run the loop.\<close>

definition fetch_response :: "int \<Rightarrow> string \<Rightarrow> bool \<Rightarrow> bool \<Rightarrow> bytes list \<Rightarrow> fetch" where
  "fetch_response junk request fopen_ok header_only reads =
     (if \<not> header_only \<and> \<not> fopen_ok then no_response 1 (Some request)
      else let r = receive_loop header_only reads
        in \<lparr>ret = junk, request_sent = Some request, printed = fst r,
            saved = (if header_only then None else Some (snd r))\<rparr>)"

definition fetch_via_http :: "int \<Rightarrow> string \<Rightarrow> bool \<Rightarrow> bool \<Rightarrow> bool \<Rightarrow> bytes list \<Rightarrow> fetch" where
  "fetch_via_http junk request send_ok fopen_ok header_only reads =
     (if \<not> send_ok then no_response 1 None else fetch_response junk request fopen_ok header_only reads)"

section \<open>TLS\<close>

text \<open>
  The results of the OpenSSL calls: \<open>SSL_CTX_new\<close>, \<open>SSL_CTX_set_default_verify_paths\<close>,
  the handshake, the peer certificate, the two verification results (0 is \<open>X509_V_OK\<close>), the
  chain of the peer (what \<open>PEM_write_X509\<close> writes for each certificate, the own one of the
  server first), for each index whether \<open>missing-cert.pem\<close> could be opened and loaded, the
  write, the reads.
\<close>

record tls =
  ctx_new_ok :: bool
  verify_paths_ok :: bool
  handshake_ok :: bool
  has_cert :: bool
  verify_result :: int
  verify_retry :: int
  peer_chain :: "string list option"
  pem_open_ok :: "nat \<Rightarrow> bool"
  pem_load_ok :: "nat \<Rightarrow> bool"
  write_ok :: bool
  reads :: "bytes list"

text \<open>
  The context: how many references to it are held, the certificates loaded into it behind
  the default ones, and, beside it, the contents of \<open>missing-cert.pem\<close>.
\<close>

record ssl_ctx =
  ctx_refs :: int
  trusted :: "string list"
  pem_file :: "string option"

text \<open>\<open>create_ssl_context\<close>; \<open>None\<close> when it ends the process.\<close>

definition create_ssl_context :: "tls \<Rightarrow> string option \<Rightarrow> ssl_ctx option" where
  "create_ssl_context t pem =
     (if \<not> ctx_new_ok t then None
      else if \<not> verify_paths_ok t then None
      else Some \<lparr>ctx_refs = 1, trusted = [], pem_file = pem\<rparr>)"

text \<open>The loop of \<open>add_missing_certificate\<close> from index \<open>i\<close> on, over the rest of the chain.\<close>

fun add_certificates :: "tls \<Rightarrow> nat \<Rightarrow> string list \<Rightarrow> ssl_ctx \<Rightarrow> ssl_ctx" where
  "add_certificates t i [] x = x"
| "add_certificates t i (pem # pems) x =
     (if \<not> pem_open_ok t i then add_certificates t (Suc i) pems x
      else let y = x\<lparr>pem_file := Some pem\<rparr>
        in if \<not> pem_load_ok t i then add_certificates t (Suc i) pems y
           else add_certificates t (Suc i) pems (y\<lparr>trusted := trusted y @ [pem]\<rparr>))"

definition add_missing_certificate :: "tls \<Rightarrow> ssl_ctx \<Rightarrow> ssl_ctx" where
  "add_missing_certificate t x =
     (case peer_chain t of None \<Rightarrow> x | Some chain \<Rightarrow> add_certificates t 1 (drop 1 chain) x)"

text \<open>\<open>validate_certificate\<close>: its return value and the context.\<close>

definition validate_certificate :: "int \<Rightarrow> tls \<Rightarrow> ssl_ctx \<Rightarrow> int \<times> ssl_ctx" where
  "validate_certificate junk t x =
     (if \<not> has_cert t then (1, x)
      else if verify_result t \<noteq> 0
      then let y = add_missing_certificate t x
        in if verify_retry t \<noteq> 0 then (1, y\<lparr>ctx_refs := ctx_refs y - 1\<rparr>) else (junk, y)
      else (junk, x))"

definition release :: "ssl_ctx \<Rightarrow> ssl_ctx" where
  "release x = x\<lparr>ctx_refs := ctx_refs x - 2\<rparr>"

text \<open>
  \<open>fetch_via_https\<close>; \<open>None\<close> when \<open>create_ssl_context\<close> ends the process. \<open>SSL_CTX_new\<close> and
  \<open>SSL_new\<close> each hold a reference to the context, \<open>SSL_free\<close> and \<open>SSL_CTX_free\<close> each give one
  back, together \<open>release\<close>; the context is returned as it is at the end. \<open>SSL_new\<close>, whose result
  the code does not look at, is taken to succeed.
\<close>

definition fetch_via_https :: "int \<Rightarrow> int \<Rightarrow> tls \<Rightarrow> string \<Rightarrow> string option \<Rightarrow> bool \<Rightarrow> bool \<Rightarrow> (fetch \<times> ssl_ctx) option" where
  "fetch_via_https junk_validate junk_ret t request pem fopen_ok header_only =
     (case create_ssl_context t pem of
        None \<Rightarrow> None
      | Some ctx \<Rightarrow>
          (let x = ctx\<lparr>ctx_refs := ctx_refs ctx + 1\<rparr>
           in if \<not> handshake_ok t then Some (no_response 1 None, release x)
              else let (v, y) = validate_certificate junk_validate t x
                in if v = - 1 then Some (no_response 1 None, release y)
                   else if \<not> write_ok t then Some (no_response 1 None, release y)
                   else Some (fetch_response junk_ret request fopen_ok header_only (reads t),
                     if \<not> header_only \<and> \<not> fopen_ok then y else release y)))"

section \<open>main\<close>

record host_env =
  resolves :: "string \<Rightarrow> string \<Rightarrow> bool"
  sock_fd :: int
  connects :: bool
  send_ok :: bool
  fopen_ok :: bool
  recvs :: "bytes list"
  pem_env :: "string option"
  tls_env :: tls

text \<open>
  How the program ends, and what the fetch did when it came to that: with an exit status, or, when
  the context has been given back more often than it was taken, in the second release of freed
  memory, after which nothing can be said. \<open>args\<close> is \<open>argv[1..]\<close>.
\<close>

datatype main_end = Exit_status int | Freed_twice

definition https_main :: "int \<Rightarrow> int \<Rightarrow> host_env \<Rightarrow> string list \<Rightarrow> main_end \<times> fetch option" where
  "https_main junk_validate junk_ret e args =
     (case args of
        [] \<Rightarrow> (Exit_status 1, None)
      | u # rest \<Rightarrow>
          (let header_only = (rest = [''-h''])
           in case parse_url u of
             Inl _ \<Rightarrow> (Exit_status 1, None)
           | Inr w \<Rightarrow>
               if \<not> resolves e (ip w) (port_text (port w)) then (Exit_status 1, None)
               else if sock_fd e < 0 then (Exit_status 1, None)
               else if \<not> connects e then (Exit_status 1, None)
               else let request = http_request header_only (path w) (ip w)
                 in if scheme w = ''https''
                    then (case fetch_via_https junk_validate junk_ret (tls_env e) request (pem_env e) (fopen_ok e) header_only of
                            None \<Rightarrow> (Exit_status 1, None)
                          | Some (f, x) \<Rightarrow>
                              if ctx_refs x < 0 then (Freed_twice, Some f)
                              else if ret f = - 1 then (Exit_status 1, Some f) else (Exit_status 0, Some f))
                    else (let f = fetch_via_http junk_ret request (send_ok e) (fopen_ok e) header_only (recvs e)
                          in if ret f = - 1 then (Exit_status 1, Some f) else (Exit_status 0, Some f))))"

section \<open>Lemmas\<close>

lemma strncmp_http: "strncmp_eq 7 (''http://'' @ r) ''http://''"
  by (simp add: NUL_def strncmp_eq_def cstr_def)

lemma strncmp_https: "strncmp_eq 8 (''https://'' @ r) ''https://''" "\<not> strncmp_eq 7 (''https://'' @ r) ''http://''"
  by (simp_all add: NUL_def strncmp_eq_def cstr_def)

text \<open>The part of a URL behind the scheme, as a user writes it.\<close>

definition authority :: "string \<Rightarrow> nat option \<Rightarrow> string \<Rightarrow> string" where
  "authority host po pth =
     host @ (case po of None \<Rightarrow> [] | Some p \<Rightarrow> CHR '':'' # show_nat p) @ CHR ''/'' # pth"

definition host_name :: "string \<Rightarrow> bool" where
  "host_name h \<longleftrightarrow> CHR ''/'' \<notin> set h \<and> CHR '':'' \<notin> set h"

lemma strchr_append_later: "c \<notin> set a \<Longrightarrow> strchr c (a @ b) = map_option (\<lambda>i. length a + i) (strchr c b)"
  by (induction a; cases "strchr c b") auto

lemma authority_split:
  assumes "host_name h"
  shows "strchr (CHR ''/'') (authority h None pth) = Some (length h)"
    "strchr (CHR ''/'') (authority h (Some p) pth) = Some (length h + Suc (length (show_nat p)))"
    "strchr (CHR '':'') (authority h (Some p) pth) = Some (length h)"
    "strchr (CHR '':'') (authority h None pth) = None \<or> (\<exists>i. strchr (CHR '':'') (authority h None pth) = Some i \<and> length h < i)"
proof -
  have h: "CHR ''/'' \<notin> set h" "CHR '':'' \<notin> set h" using assms by (simp_all add: host_name_def)
  show "strchr (CHR ''/'') (authority h None pth) = Some (length h)"
    using h by (simp add: authority_def strchr_append_later)
  have "strchr (CHR ''/'') (show_nat p @ CHR ''/'' # pth) = Some (length (show_nat p))"
    using show_nat_no_slash(1) by (rule strchr_append)
  then show "strchr (CHR ''/'') (authority h (Some p) pth) = Some (length h + Suc (length (show_nat p)))"
    using h by (simp add: authority_def strchr_append_later)
  show "strchr (CHR '':'') (authority h (Some p) pth) = Some (length h)"
    using h by (simp add: authority_def strchr_append)
  show "strchr (CHR '':'') (authority h None pth) = None \<or> (\<exists>i. strchr (CHR '':'') (authority h None pth) = Some i \<and> length h < i)"
    using h by (cases "strchr (CHR '':'') pth") (simp_all add: authority_def strchr_append_later)
qed

lemma atoi_show_slash: "n \<le> 2147483647 \<Longrightarrow> atoi (show_nat n @ CHR ''/'' # r) = int n"
  using scan_number_show [of "CHR ''/'' # r" n] dropWhile_space_show [of n "CHR ''/'' # r"]
  by (simp add: atoi_def strtol_val_def min_def to_int_small isdigit_def)

text \<open>\<open>parse_url\<close> behind a known scheme: the part that does not depend on which one it was.\<close>

definition parse_authority :: "string \<Rightarrow> int \<Rightarrow> string \<Rightarrow> url_error + url" where
  "parse_authority sch dport s =
    (case strchr (CHR ''/'') s of
       None \<Rightarrow> Inl Path_missing
     | Some slash \<Rightarrow>
         (let hp = (case strchr (CHR '':'') s of
                      Some colon \<Rightarrow> if colon < slash then (take colon s, atoi (drop (Suc colon) s)) else (take slash s, dport)
                    | None \<Rightarrow> (take slash s, dport))
          in if snd hp \<le> 0 then Inl Invalid_port
             else if snd hp = 443 \<and> sch = ''http'' then Inl Port_443_over_http
             else if snd hp = 80 \<and> sch = ''https'' then Inl Port_80_over_https
             else Inr \<lparr>scheme = sch, ip = fst hp, port = snd hp, path = drop (Suc slash) s\<rparr>))"

lemma parse_url_https: "parse_url (''https://'' @ s) = parse_authority ''https'' 443 s"
proof -
  have n: "strncmp_eq 7 (''https://'' @ s) ''http://'' = False" "strncmp_eq 8 (''https://'' @ s) ''https://'' = True"
    using strncmp_https [of s] by simp_all
  have d: "drop 8 (''https://'' @ s) = s" by simp
  show ?thesis unfolding parse_url_def parse_authority_def n d by (simp add: Let_def split: option.split)
qed

lemma parse_url_http: "parse_url (''http://'' @ s) = parse_authority ''http'' 80 s"
proof -
  have n: "strncmp_eq 7 (''http://'' @ s) ''http://'' = True" using strncmp_http [of s] by simp
  have d: "drop 7 (''http://'' @ s) = s" by simp
  show ?thesis unfolding parse_url_def parse_authority_def n d by (simp add: Let_def split: option.split)
qed

lemma parse_authority_port:
  assumes "host_name h" and "0 < p" and "int p \<le> 2147483647"
    and "\<not> (p = 443 \<and> sch = ''http'')" and "\<not> (p = 80 \<and> sch = ''https'')"
  shows "parse_authority sch dport (authority h (Some p) pth) = Inr \<lparr>scheme = sch, ip = h, port = int p, path = pth\<rparr>"
proof -
  let ?s = "authority h (Some p) pth"
  have d: "drop (Suc (length h)) ?s = show_nat p @ CHR ''/'' # pth" "take (length h) ?s = h"
    "drop (Suc (length h + Suc (length (show_nat p)))) ?s = pth"
    by (simp_all add: authority_def)
  have "atoi (show_nat p @ CHR ''/'' # pth) = int p" using assms(3) by (intro atoi_show_slash) simp
  then show ?thesis
    unfolding parse_authority_def authority_split(2,3) [OF assms(1)] using assms(2,4,5) d by (simp add: Let_def)
qed

lemma parse_authority_default:
  assumes "host_name h" and "0 < dport"
    and "\<not> (dport = 443 \<and> sch = ''http'')" and "\<not> (dport = 80 \<and> sch = ''https'')"
  shows "parse_authority sch dport (authority h None pth) = Inr \<lparr>scheme = sch, ip = h, port = dport, path = pth\<rparr>"
proof -
  let ?t = "authority h None pth"
  have "take (length h) ?t = h" "drop (Suc (length h)) ?t = pth" by (simp_all add: authority_def)
  then show ?thesis
    unfolding parse_authority_def authority_split(1) [OF assms(1)] using authority_split(4) [OF assms(1), of pth] assms(2-4)
    by (auto simp: Let_def split: option.splits)
qed

lemma add_certificates_refs [simp]: "ctx_refs (add_certificates t i pems x) = ctx_refs x"
  by (induction t i pems x rule: add_certificates.induct) (simp_all add: Let_def)

lemma add_missing_certificate_refs [simp]: "ctx_refs (add_missing_certificate t x) = ctx_refs x"
  by (simp add: add_missing_certificate_def split: option.split)

text \<open>The certificate of the peer is there and fails both verifications.\<close>

abbreviation bad_certificate :: "tls \<Rightarrow> bool" where
  "bad_certificate t \<equiv> has_cert t \<and> verify_result t \<noteq> 0 \<and> verify_retry t \<noteq> 0"

lemma validate_certificate_refs: "ctx_refs (snd (validate_certificate jv t x)) = (if bad_certificate t then ctx_refs x - 1 else ctx_refs x)"
  by (simp add: validate_certificate_def Let_def)

lemma validate_certificate_value: "validate_certificate jv t x = (v, y) \<Longrightarrow> jv \<noteq> - 1 \<Longrightarrow> v \<noteq> - 1"
  by (auto simp: validate_certificate_def Let_def split: if_splits)

text \<open>What the loop loads: the certificates of the chain behind the first for which both calls
  succeed, in their order.\<close>

lemma add_certificates_trusted:
  "trusted (add_certificates t i pems x) =
    trusted x @ map snd (filter (\<lambda>(j, pem). pem_open_ok t j \<and> pem_load_ok t j) (enumerate i pems))"
  by (induction t i pems x rule: add_certificates.induct) (simp_all add: Let_def)

lemma filter_enumerate_all: "(\<And>j. P j) \<Longrightarrow> map snd (filter (\<lambda>(j, x). P j) (enumerate i xs)) = xs"
  by (induction xs arbitrary: i) simp_all

lemma http_request_fits:
  assumes "length pth + length host < (if header_only then 978 else 979)"
  shows "http_request header_only pth host = full_request header_only pth host"
proof -
  have "length (full_request header_only pth host) = length pth + length host + (if header_only then 46 else 45)"
    by (simp add: full_request_def crlf_def)
  with assms show ?thesis by (simp add: http_request_def snprintf_def HTTPS_BUFFER_SIZE_def split: if_splits)
qed

lemma port_text_small: "p \<le> 65535 \<Longrightarrow> port_text (int p) = show_nat p"
  using length_show_nat [of p 5] by (simp add: port_text_def show_int_def snprintf_def)

lemma receive_loop_saved: "receive_loop False bs = ([], concat (takeWhile (\<lambda>b. b \<noteq> []) bs))"
  by (induction bs) auto

section \<open>Properties\<close>

text \<open>
  C17. \<open>parse_url\<close> reads back what a URL was written from: for a host without slash and
  colon, any path and any port an \<open>int\<close> holds except 0 and the reserved 80, the URL
  \<open>https://host:port/path\<close> gives exactly its parts, and without a port the default 443.
\<close>

theorem parse_url_round_trip:
  assumes "host_name h" and "0 < p" and "p \<noteq> 80" and "int p \<le> 2147483647"
  shows "parse_url (''https://'' @ authority h (Some p) pth) = Inr \<lparr>scheme = ''https'', ip = h, port = int p, path = pth\<rparr> \<and>
    parse_url (''https://'' @ authority h None pth) = Inr \<lparr>scheme = ''https'', ip = h, port = 443, path = pth\<rparr>"
  unfolding parse_url_https using assms by (simp add: parse_authority_port parse_authority_default)

theorem parse_url_round_trip_witness:
  "parse_url (''https://'' @ authority ''example.com'' (Some 8443) ''a/b:c'') =
     Inr \<lparr>scheme = ''https'', ip = ''example.com'', port = 8443, path = ''a/b:c''\<rparr>"
  using parse_url_round_trip [of "''example.com''" 8443 "''a/b:c''"] by (simp add: host_name_def)

text \<open>
  C11. From a URL to the file: with a host that resolves and can be reached, a request that
  fits its buffer and calls that succeed, the client sends exactly the GET request for the
  path and host of the URL, over TLS for an \<open>https\<close> and over the bare socket for an \<open>http\<close>
  URL, and stores in \<open>output.dat\<close> everything the connection delivers up to its end. The exit
  status is 0 unless the missing \<open>return\<close> happens to leave \<open>-1\<close>; a \<open>-1\<close> left by
  \<open>validate_certificate\<close> would stop the TLS fetch and is excluded. When the certificate fails
  both verifications the file is stored all the same, and then the context is freed twice.
\<close>

theorem https_download:
  assumes "host_name h" and "0 < p" "p \<le> 65535" and "length pth + length h < 979"
    and "resolves e h (show_nat p)" and "0 \<le> sock_fd e" and "connects e" and "fopen_ok e"
    and "ctx_new_ok (tls_env e)" "verify_paths_ok (tls_env e)" "handshake_ok (tls_env e)" "write_ok (tls_env e)"
    and "send_ok e" and "jv \<noteq> - 1"
  shows "(p \<noteq> 80 \<longrightarrow> https_main jv jr e [''https://'' @ authority h (Some p) pth] =
      (if bad_certificate (tls_env e) then Freed_twice else Exit_status (if jr = - 1 then 1 else 0),
       Some \<lparr>ret = jr, request_sent = Some (full_request False pth h), printed = [],
        saved = Some (concat (takeWhile (\<lambda>b. b \<noteq> []) (reads (tls_env e))))\<rparr>)) \<and>
    (p \<noteq> 443 \<longrightarrow> https_main jv jr e [''http://'' @ authority h (Some p) pth] =
      (Exit_status (if jr = - 1 then 1 else 0), Some \<lparr>ret = jr, request_sent = Some (full_request False pth h), printed = [],
        saved = Some (concat (takeWhile (\<lambda>b. b \<noteq> []) (recvs e)))\<rparr>))"
proof (intro conjI impI)
  have req: "http_request False pth h = full_request False pth h" using assms(4) by (intro http_request_fits) simp
  have pt: "port_text (int p) = show_nat p" using assms(3) by (rule port_text_small)
  note resp = fetch_response_def no_response_def receive_loop_saved req pt Let_def
  {
    assume "p \<noteq> 80"
    then have u: "parse_url (''https://'' @ authority h (Some p) pth) = Inr \<lparr>scheme = ''https'', ip = h, port = int p, path = pth\<rparr>"
      unfolding parse_url_https using assms(1-3) by (intro parse_authority_port) simp_all
    obtain v y where "validate_certificate jv (tls_env e) \<lparr>ctx_refs = 2, trusted = [], pem_file = pem_env e\<rparr> = (v, y)"
      by (cases "validate_certificate jv (tls_env e) \<lparr>ctx_refs = 2, trusted = [], pem_file = pem_env e\<rparr>")
    moreover from this have "v \<noteq> - 1" using assms(14) by (rule validate_certificate_value)
    moreover from calculation have "ctx_refs y = (if bad_certificate (tls_env e) then 1 else 2)"
      using validate_certificate_refs [of jv "tls_env e" "\<lparr>ctx_refs = 2, trusted = [], pem_file = pem_env e\<rparr>"] by simp
    ultimately show "https_main jv jr e [''https://'' @ authority h (Some p) pth] =
      (if bad_certificate (tls_env e) then Freed_twice else Exit_status (if jr = - 1 then 1 else 0),
       Some \<lparr>ret = jr, request_sent = Some (full_request False pth h), printed = [],
        saved = Some (concat (takeWhile (\<lambda>b. b \<noteq> []) (reads (tls_env e))))\<rparr>)"
      unfolding https_main_def list.case u sum.case using assms(5-12)
      by (simp add: fetch_via_https_def create_ssl_context_def release_def resp)
  next
    assume "p \<noteq> 443"
    then have u: "parse_url (''http://'' @ authority h (Some p) pth) = Inr \<lparr>scheme = ''http'', ip = h, port = int p, path = pth\<rparr>"
      unfolding parse_url_http using assms(1-3) by (intro parse_authority_port) simp_all
    show "https_main jv jr e [''http://'' @ authority h (Some p) pth] =
      (Exit_status (if jr = - 1 then 1 else 0), Some \<lparr>ret = jr, request_sent = Some (full_request False pth h), printed = [],
        saved = Some (concat (takeWhile (\<lambda>b. b \<noteq> []) (recvs e)))\<rparr>)"
      unfolding https_main_def list.case u sum.case using assms(5-8,13)
      by (simp add: fetch_via_http_def resp)
  }
qed

definition good_tls :: "bytes list \<Rightarrow> tls" where
  "good_tls bs = \<lparr>ctx_new_ok = True, verify_paths_ok = True, handshake_ok = True, has_cert = True, verify_result = 0,
     verify_retry = 0, peer_chain = None, pem_open_ok = (\<lambda>_. True), pem_load_ok = (\<lambda>_. True), write_ok = True, reads = bs\<rparr>"

definition good_host :: "bytes list \<Rightarrow> host_env" where
  "good_host bs = \<lparr>resolves = (\<lambda>h p. h = ''example.com''), sock_fd = 3, connects = True, send_ok = True, fopen_ok = True,
     recvs = [''plain''], pem_env = None, tls_env = good_tls bs\<rparr>"

theorem https_download_witness:
  "https_main 0 0 (good_host [''HTTP'', ''body'', [], ''x'']) [''https://'' @ authority ''example.com'' (Some 8443) ''a''] =
    (Exit_status 0, Some \<lparr>ret = 0, request_sent = Some (full_request False ''a'' ''example.com''), printed = [], saved = Some ''HTTPbody''\<rparr>)"
  using https_download [of "''example.com''" 8443 "''a''" "good_host [''HTTP'', ''body'', [], ''x'']" 0 0]
  by (simp add: good_host_def good_tls_def host_name_def)

text \<open>
  C35. A certificate that fails verification is accepted. \<open>validate_certificate\<close> answers 1
  and its caller looks for \<open>-1\<close>, so whatever the two verification results are, the request
  goes out over the connection and the response is stored. By then every certificate that
  the peer sent behind its own has been loaded as trusted, and the context has been released
  once too often.
\<close>

theorem https_bad_certificate_accepted:
  assumes "ctx_new_ok t" "verify_paths_ok t" "handshake_ok t" "has_cert t" "write_ok t"
    and "verify_result t \<noteq> 0" "verify_retry t \<noteq> 0"
    and "peer_chain t = Some (own # others)" and "\<And>i. pem_open_ok t i" "\<And>i. pem_load_ok t i"
  shows "\<exists>f x. fetch_via_https jv jr t request pem True False = Some (f, x) \<and> request_sent f = Some request \<and>
    saved f = Some (concat (takeWhile (\<lambda>b. b \<noteq> []) (reads t))) \<and> trusted x = others \<and> ctx_refs x = - 1"
  using assms
  by (simp add: fetch_via_https_def create_ssl_context_def validate_certificate_def fetch_response_def release_def
      receive_loop_saved add_missing_certificate_def add_certificates_trusted filter_enumerate_all Let_def)

theorem https_bad_certificate_accepted_witness:
  "\<exists>f x. fetch_via_https 0 0 ((good_tls [''HTTP/1.1 200 OK'', ''secret''])\<lparr>verify_result := 18, verify_retry := 18,
       peer_chain := Some [''self'', ''ca'']\<rparr>) ''GET'' None True False = Some (f, x) \<and> request_sent f = Some ''GET'' \<and>
     saved f = Some ''HTTP/1.1 200 OKsecret'' \<and> trusted x = [''ca''] \<and> ctx_refs x = - 1"
  using https_bad_certificate_accepted [of "(good_tls [''HTTP/1.1 200 OK'', ''secret''])\<lparr>verify_result := 18,
    verify_retry := 18, peer_chain := Some [''self'', ''ca'']\<rparr>" "''self''" "[''ca'']" 0 0 "''GET''" None]
  by (simp add: good_tls_def)

text \<open>
  The exit status does not tell whether anything was fetched: after a URL was accepted
  and the host reached, a failed TLS handshake and a failed \<open>send\<close> both end in success.
\<close>

theorem https_failed_fetch_exits_zero:
  assumes "parse_url u = Inr w" and "resolves e (ip w) (port_text (port w))" and "0 \<le> sock_fd e" and "connects e"
    and "scheme w = ''https'' \<Longrightarrow> ctx_new_ok (tls_env e) \<and> verify_paths_ok (tls_env e) \<and> \<not> handshake_ok (tls_env e)"
    and "scheme w \<noteq> ''https'' \<Longrightarrow> \<not> send_ok e"
  shows "https_main jv jr e [u] = (Exit_status 0, Some (no_response 1 None))"
  using assms
  by (cases "scheme w = ''https''")
    (simp_all add: https_main_def fetch_via_https_def create_ssl_context_def fetch_via_http_def no_response_def release_def Let_def)

theorem https_failed_fetch_exits_zero_witness:
  "https_main 0 0 ((good_host [])\<lparr>tls_env := (good_tls [])\<lparr>handshake_ok := False\<rparr>\<rparr>) [''https://'' @ authority ''example.com'' None ''x''] =
     (Exit_status 0, Some (no_response 1 None))"
proof -
  let ?u = "''https://'' @ authority ''example.com'' None ''x''"
  have "parse_url ?u = Inr \<lparr>scheme = ''https'', ip = ''example.com'', port = 443, path = ''x''\<rparr>" by code_simp
  from https_failed_fetch_exits_zero [OF this, of "(good_host [])\<lparr>tls_env := (good_tls [])\<lparr>handshake_ok := False\<rparr>\<rparr>" 0 0]
  show ?thesis by (simp add: good_host_def good_tls_def)
qed

text \<open>
  The request is sent complete exactly when its text is shorter than the buffer; a
  longer one is cut off and lacks the end of the header the server waits for.
\<close>

theorem http_request_complete_iff:
  "http_request header_only pth host = full_request header_only pth host \<longleftrightarrow>
     length pth + length host < (if header_only then 978 else 979)"
proof -
  have len: "length (full_request header_only pth host) = length pth + length host + (if header_only then 46 else 45)"
    by (simp add: full_request_def crlf_def)
  show ?thesis
    unfolding http_request_def snprintf_def HTTPS_BUFFER_SIZE_def
    using len by (auto simp: take_all_iff)
qed

text \<open>
  Only the first five digits of the port reach \<open>getaddrinfo\<close>. Every port up to 65535
  arrives unchanged, but a six-digit port, which \<open>parse_url\<close> accepts, is looked up as its
  first five digits, so that the client talks to another port than the URL names.
\<close>

theorem port_text_truncates:
  assumes "0 < p" and "p \<le> 999999"
  shows "atoi (port_text (int p)) = (if p \<le> 99999 then int p else int (p div 10))"
proof (cases "p \<le> 99999")
  case True
  have "length (show_nat p) \<le> 5" using length_show_nat [of p 5] True by simp
  then have "port_text (int p) = show_nat p" by (simp add: port_text_def show_int_def snprintf_def)
  with True show ?thesis using atoi_show_nat [of p] by simp
next
  case False
  have "length (show_nat q) = 5" if "10000 \<le> q" "q < 100000" for q
  proof -
    have "10 \<le> q div 10" "10 \<le> q div 100" "10 \<le> q div 1000" "q div 10000 < 10"
      using that by (simp_all add: less_eq_div_iff_mult_less_eq div_less_iff_less_mult)
    with that show ?thesis
      by (simp add: show_nat.simps [of q] show_nat.simps [of "q div 10"] show_nat.simps [of "q div 100"]
        show_nat.simps [of "q div 1000"] show_nat.simps [of "q div 10000"] div_mult2_eq [symmetric])
  qed
  then have "length (show_nat (p div 10)) = 5" using False assms(2) by simp
  moreover have "show_nat p = show_nat (p div 10) @ [digit_char (p mod 10)]" using False by (subst show_nat.simps) simp
  ultimately have "port_text (int p) = show_nat (p div 10)" by (simp add: port_text_def show_int_def snprintf_def)
  with False assms(2) show ?thesis using atoi_show_nat [of "p div 10"] by simp
qed

theorem port_text_truncates_witness: "atoi (port_text (int 443000)) = 44300"
  using port_text_truncates [of 443000] by simp

text \<open>
  C25. With \<open>-h\<close>, when the header and its terminator arrive in one read and the terminator
  occurs nowhere earlier, exactly the header is printed and the rest of the response is
  not; no file is written.
\<close>

theorem https_header_printed:
  assumes "b = h @ crlf @ crlf @ rest" and "h \<noteq> []" and "\<And>i. 3 < i \<Longrightarrow> i < length h + 3 \<Longrightarrow> seg (i - 3) 4 b \<noteq> crlf @ crlf"
  shows "receive_loop True (b # bs) = (h @ crlf @ crlf, [])"
proof -
  let ?n = "length h + 3"
  have four: "seg (i - 3) 4 b = [b ! (i - 3), b ! (i - 2), b ! (i - 1), b ! i]" if "3 < i" "i < length b" for i
  proof -
    have "i = (i - 3) + 3" using that(1) by simp
    then obtain j where "i = j + 3" by blast
    then have "drop (i - 3) b = b ! j # b ! Suc j # b ! Suc (Suc j) # b ! Suc (Suc (Suc j)) # drop (Suc (Suc (Suc (Suc j)))) b"
      using that(2) by (simp add: Cons_nth_drop_Suc)
    with \<open>i = j + 3\<close> show ?thesis by (simp add: seg_def numeral_eq_Suc)
  qed
  have at: "seg (i - 3) 4 b = crlf @ crlf \<longleftrightarrow> b ! i = LF \<and> b ! (i - 1) = CR \<and> b ! (i - 2) = LF \<and> b ! (i - 3) = CR"
    if "3 < i" "i < length b" for i using four [OF that] by (auto simp: crlf_def)
  have n: "?n < length b" "3 < ?n" using assms(1,2) by (simp_all add: crlf_def)
  have before: "\<not> (3 < i \<and> b ! i = LF \<and> b ! (i - 1) = CR \<and> b ! (i - 2) = LF \<and> b ! (i - 3) = CR)" if "i < ?n" for i
    using that at [of i] assms(3) [of i] n(1) by (cases "3 < i") auto
  have "seg (?n - 3) 4 b = crlf @ crlf" by (simp add: assms(1) seg_def crlf_def)
  then have "header_end b = Some ?n"
    unfolding header_end_def find_Some_iff using n at [OF n(2,1)] before by (intro exI [of _ ?n]) simp
  moreover have "take (Suc ?n) b = h @ crlf @ crlf" by (simp add: assms(1) crlf_def)
  moreover have "b \<noteq> []" using n by auto
  ultimately show ?thesis by simp
qed

theorem https_header_printed_witness:
  "receive_loop True [''HTTP'' @ crlf @ crlf @ ''body''] = (''HTTP'' @ crlf @ crlf, [])"
proof (rule https_header_printed [where rest = "''body''"])
  fix i :: nat
  assume "3 < i" "i < length ''HTTP'' + 3"
  then have "i \<in> set [4, 5, 6]" by auto
  then show "seg (i - 3) 4 (''HTTP'' @ crlf @ crlf @ ''body'') \<noteq> crlf @ crlf"
    by (auto simp: seg_def crlf_def CR_def LF_def)
qed simp_all

end
