(* ===== verification/WebDownload.thy ===== *)
theory WebDownload
  imports HttpsClient
begin

text \<open>
  The two earlier web clients, \<open>archive/web-downloader\<close>: \<open>myweb.c\<close>, which takes a URL and
  speaks plain HTTP or TLS, and \<open>client.c\<close>, which takes a host name and an address. Both read
  the response one byte at a time, collect the header in a buffer, look for its length
  field and write the body to \<open>output.dat\<close>. Undefined behaviour (an overflow of the
  buffers, a \<open>NULL\<close> string) is \<open>None\<close>. Neither program initialises the buffer for the header or
  \<open>length\<close>: the string that the buffer happens to hold before the first byte and the value of
  \<open>length\<close> when nothing was scanned are fields of the environment of a run, \<open>w_temp\<close> and
  \<open>w_length\<close>.
\<close>

section \<open>Arguments\<close>

text \<open>Host and port, the first two pieces of an authority; \<open>None\<close> is \<open>NULL\<close>.\<close>

definition ip_port :: "string \<Rightarrow> string option \<times> string option" where
  "ip_port token =
     (case strtok '':'' token of
        None \<Rightarrow> (None, None)
      | Some (h, r) \<Rightarrow> (Some h, map_option fst (strtok '':'' r)))"

definition web_port :: "string option \<Rightarrow> 16 word" where
  "web_port p = (case p of None \<Rightarrow> 80 | Some t \<Rightarrow> word_of_int (atoi t))"

record target =
  SSLmode :: bool
  w_host :: "string option"
  w_port :: "16 word"
  w_path :: "string option"

definition next_token :: "string \<Rightarrow> string option \<times> string" where
  "next_token s = (case strtok ''/'' s of None \<Rightarrow> (None, []) | Some (t, r) \<Rightarrow> (Some t, r))"

text \<open>The beginning of \<open>main\<close> of \<open>myweb.c\<close>: an argument without any token is compared as \<open>NULL\<close>.\<close>

definition myweb_target :: "string \<Rightarrow> target option" where
  "myweb_target arg =
     (case strtok ''/'' arg of
        None \<Rightarrow> None
      | Some (t, r) \<Rightarrow>
          (let (ssl, token, r') =
             (if t = ''https:'' then (True, next_token r) else (False, Some t, r));
             hp = (case token of None \<Rightarrow> (None, None) | Some a \<Rightarrow> ip_port a)
           in Some \<lparr>SSLmode = ssl, w_host = fst hp, w_port = web_port (snd hp), w_path = fst (next_token r')\<rparr>))"

section \<open>Request and response\<close>

definition web_request :: "bool \<Rightarrow> string \<Rightarrow> string \<Rightarrow> string" where
  "web_request head pth host =
     (if head then ''HEAD'' else ''GET'') @ '' /'' @ pth @ '' HTTP/1.1'' @ crlf @ ''Host: '' @ host @ crlf @ crlf"

definition head_end :: string where
  "head_end = crlf @ crlf"

definition TEMP_SIZE :: nat where
  "TEMP_SIZE = 2048"

text \<open>
  The loop that reads up to the end of the header: the header buffer, what was printed and
  the bytes that have not been read. A NUL byte is an empty string to \<open>strcat\<close> and \<open>fprintf\<close>.
\<close>

fun read_header :: "string \<Rightarrow> bytes \<Rightarrow> (string \<times> bytes \<times> bytes) option" where
  "read_header temp [] = Some (temp, [], [])"
| "read_header temp (c # cs) =
     (let response = cstr [c]; temp' = temp @ response
      in if TEMP_SIZE \<le> length temp' then None
         else if strstr head_end temp' \<noteq> None then Some (temp', response, cs)
         else case read_header temp' cs of
           None \<Rightarrow> None
         | Some (t, shown, rest) \<Rightarrow> Some (t, response @ shown, rest))"

definition length_key :: string where
  "length_key = ''Content-Length: ''"

definition fmt_length :: "directive list" where
  "fmt_length = map Lit ''Content-Length:'' @ [WS, Conv_d]"

text \<open>The length field: \<open>None\<close> when there is none, else what \<open>sscanf\<close> returns and the length.\<close>

definition content_length :: "int \<Rightarrow> string \<Rightarrow> (int \<times> int) option" where
  "content_length junk temp =
     (case strstr length_key temp of
        None \<Rightarrow> None
      | Some remainder \<Rightarrow>
          (let line = takeWhile (\<lambda>c. c \<noteq> CR) remainder
           in Some (sscanf_ret fmt_length line,
                case sscanf_vals fmt_length line of SInt n # _ \<Rightarrow> n | _ \<Rightarrow> junk)))"

text \<open>The loop that writes the body: what is written to the file.\<close>

fun body_loop :: "int \<Rightarrow> int \<Rightarrow> bytes \<Rightarrow> bytes" where
  "body_loop n len [] = []"
| "body_loop n len (c # cs) = (if n < len then cstr [c] @ body_loop (n + 1) len cs else [])"

section \<open>The programs\<close>

record web_env =
  w_resolves :: "string \<Rightarrow> bool"
  w_sock_ok :: bool
  w_inet_ok :: "string \<Rightarrow> bool"
  w_connects :: "string \<Rightarrow> 16 word \<Rightarrow> bool"
  w_ssl_ok :: bool
  w_plain :: "bytes"
  w_secure :: "bytes"
  w_fopen_ok :: bool
  w_temp :: string
  w_length :: int

record web_run =
  w_status :: int
  w_sent :: bytes
  w_shown :: bytes
  w_saved :: "bytes option"

definition web_failed :: "int \<Rightarrow> web_run" where
  "web_failed status = \<lparr>w_status = status, w_sent = [], w_shown = [], w_saved = None\<rparr>"

text \<open>The exchange of \<open>myweb.c\<close> once it is connected.\<close>

definition myweb_exchange :: "web_env \<Rightarrow> bytes \<Rightarrow> bool \<Rightarrow> string option \<Rightarrow> string \<Rightarrow> web_run option" where
  "myweb_exchange e stream head pth host =
     (case pth of
        None \<Rightarrow> None
      | Some p \<Rightarrow>
          (let req = web_request head p host
           in if 1024 \<le> length req then None
              else case read_header (w_temp e) stream of
                None \<Rightarrow> None
              | Some (temp, shown, rest) \<Rightarrow>
                  if head then Some \<lparr>w_status = 0, w_sent = req @ [NUL], w_shown = shown, w_saved = None\<rparr>
                  else (case content_length (w_length e) temp of
                          None \<Rightarrow> Some \<lparr>w_status = 1, w_sent = req @ [NUL], w_shown = [], w_saved = None\<rparr>
                        | Some (r, len) \<Rightarrow>
                            if r = - 1 then Some \<lparr>w_status = 1, w_sent = req @ [NUL], w_shown = [], w_saved = None\<rparr>
                            else if \<not> w_fopen_ok e then None
                            else Some \<lparr>w_status = 0, w_sent = req @ [NUL], w_shown = [], w_saved = Some (body_loop 0 len rest)\<rparr>)))"

definition myweb_main :: "web_env \<Rightarrow> string \<Rightarrow> string option \<Rightarrow> web_run option" where
  "myweb_main e arg opt =
     (case myweb_target arg of
        None \<Rightarrow> None
      | Some t \<Rightarrow>
          (case w_host t of
             None \<Rightarrow> None
           | Some h \<Rightarrow>
               if \<not> w_resolves e h then Some (web_failed 1)
               else if \<not> w_sock_ok e then Some (web_failed 1)
               else if \<not> w_connects e h (w_port t) then Some (web_failed 1)
               else if SSLmode t \<and> \<not> w_ssl_ok e then Some (web_failed 1)
               else myweb_exchange e (if SSLmode t then w_secure e else w_plain e) (opt = Some ''-h'') (w_path t) h))"

text \<open>
  \<open>client.c\<close>, run in an environment of its own: the host name for the request is an argument of its own; a response without a
  length field is searched on from a \<open>NULL\<close> pointer, a length that cannot be scanned is used
  uninitialised.
\<close>

definition client_exchange :: "web_env \<Rightarrow> bytes \<Rightarrow> bool \<Rightarrow> string option \<Rightarrow> string \<Rightarrow> web_run option" where
  "client_exchange e stream head pth host =
     (case pth of
        None \<Rightarrow> None
      | Some p \<Rightarrow>
          (let req = web_request head p host
           in if 1024 \<le> length req then None
              else case read_header (w_temp e) stream of
                None \<Rightarrow> None
              | Some (temp, shown, rest) \<Rightarrow>
                  if head then Some \<lparr>w_status = 0, w_sent = req @ [NUL], w_shown = shown, w_saved = None\<rparr>
                  else (case content_length (w_length e) temp of
                          None \<Rightarrow> None
                        | Some (r, len) \<Rightarrow>
                            if \<not> w_fopen_ok e then None
                            else Some \<lparr>w_status = 0, w_sent = req @ [NUL], w_shown = [], w_saved = Some (body_loop 0 len rest)\<rparr>)))"

definition client_main :: "web_env \<Rightarrow> string \<Rightarrow> string \<Rightarrow> string option \<Rightarrow> web_run option" where
  "client_main e host arg opt =
     (case strtok ''/'' arg of
        None \<Rightarrow> None
      | Some (token, r) \<Rightarrow>
          (let (h, p) = ip_port token
           in if \<not> w_sock_ok e then Some (web_failed (- 1))
              else case h of
                None \<Rightarrow> None
              | Some a \<Rightarrow>
                  if \<not> w_inet_ok e a then Some (web_failed (- 1))
                  else if \<not> w_connects e a (web_port p) then Some (web_failed (- 1))
                  else client_exchange e (w_plain e) (opt = Some ''-h'') (fst (next_token r)) host))"

section \<open>Lemmas\<close>

lemma cstr_single: "cstr [c] = filter (\<lambda>c. c \<noteq> NUL) [c]"
  by (simp add: cstr_def)

lemma read_header_stops:
  assumes "NUL \<notin> set h" and "h \<noteq> []" and "strstr head_end (temp @ butlast h) = None"
    and "strstr head_end (temp @ h) \<noteq> None" and "length temp + length h < TEMP_SIZE"
  shows "read_header temp (h @ r) = Some (temp @ h, h, r)"
  using assms
proof (induction h arbitrary: temp)
  case (Cons c h)
  have c: "cstr [c] = [c]" using Cons.prems(1) by (auto simp: cstr_single)
  show ?case
  proof (cases "h = []")
    case True
    with Cons.prems c show ?thesis by (simp add: Let_def)
  next
    case False
    then have "strstr head_end ((temp @ [c]) @ butlast h) = None" using Cons.prems(3) by simp
    moreover from this have "strstr head_end (temp @ [c]) = None" by (rule strstr_take_None)
    ultimately show ?thesis using Cons.IH [of "temp @ [c]"] Cons.prems False c by (simp add: Let_def)
  qed
qed simp

text \<open>
  When the uninitialised buffer happens to hold the end of a header, the first byte of the
  response already ends the loop.
\<close>

lemma read_header_stale:
  assumes "strstr head_end temp \<noteq> None" and "length temp + 1 < TEMP_SIZE" and "c \<noteq> NUL"
  shows "read_header temp (c # cs) = Some (temp @ [c], [c], cs)"
  using assms strstr_take_None [of head_end temp "[c]"] by (auto simp: cstr_single Let_def)

lemma length_line_scanned:
  assumes "n \<le> 2147483647"
  shows "scan fmt_length (length_key @ show_nat n) = ([SInt (int n)], False, [])"
proof -
  have "length_key @ show_nat n = ''Content-Length:'' @ CHR '' '' # show_nat n" by (simp add: length_key_def)
  then have "scan fmt_length (length_key @ show_nat n) = scan [WS, Conv_d] (CHR '' '' # show_nat n)"
    unfolding fmt_length_def by (metis scan_Lits)
  also have "\<dots> = scan [Conv_d] (show_nat n)" using scan_ws_show [of "[Conv_d]" n "[]"] by simp
  also have "\<dots> = ([SInt (int n)], False, [])" using scan_d_show [of "[]" n "[]"] assms by simp
  finally show ?thesis .
qed

lemma content_length_read:
  assumes "strstr length_key temp = Some (length_key @ show_nat n @ CR # post)" and "n \<le> 2147483647"
  shows "content_length junk temp = Some (1, int n)"
proof -
  have "CR \<notin> set (show_nat n)" using show_nat_digits [of n] by (auto simp: CR_def isdigit_def)
  moreover have "CR \<notin> set length_key" by (simp add: CR_def length_key_def)
  ultimately have "takeWhile (\<lambda>c. c \<noteq> CR) ((length_key @ show_nat n) @ CR # post) = length_key @ show_nat n"
    by (subst takeWhile_append2) auto
  then show ?thesis
    using assms(1) length_line_scanned [OF assms(2)] by (simp add: content_length_def sscanf_ret_def sscanf_vals_def)
qed

lemma body_loop_filter: "body_loop n len b = filter (\<lambda>c. c \<noteq> NUL) (take (nat (len - n)) b)"
proof (induction b arbitrary: n)
  case (Cons c b)
  show ?case
  proof (cases "n < len")
    case True
    then have "nat (len - n) = Suc (nat (len - (n + 1)))" by simp
    with Cons.IH [of "n + 1"] True show ?thesis by (simp add: cstr_single)
  qed simp
qed simp

lemma ip_port_parts:
  assumes "host_name h" and "h \<noteq> []"
  shows "ip_port h = (Some h, None)" "ip_port (h @ CHR '':'' # show_nat p) = (Some h, Some (show_nat p))"
proof -
  have h: "set h \<inter> set '':'' = {}" using assms(1) by (auto simp: host_name_def)
  have p: "set (show_nat p) \<inter> set '':'' = {}" using show_nat_no_slash(2) by auto
  show "ip_port h = (Some h, None)" using strtok_word(2) [OF assms(2) h] by (simp add: ip_port_def)
  show "ip_port (h @ CHR '':'' # show_nat p) = (Some h, Some (show_nat p))"
    using strtok_word(1) [OF assms(2) h, of "CHR '':''"] strtok_word(2) [OF show_nat_nonempty p] by (simp add: ip_port_def)
qed

text \<open>Only the part of the path before its first slash is taken.\<close>

lemma next_token_path:
  assumes "pth \<noteq> []" and "hd pth \<noteq> CHR ''/''"
  shows "fst (next_token pth) = Some (takeWhile (\<lambda>c. c \<noteq> CHR ''/'') pth)"
  using assms by (cases pth) (simp_all add: next_token_def strtok_def)

lemma strtok_slash: "a \<noteq> [] \<Longrightarrow> CHR ''/'' \<notin> set a \<Longrightarrow> strtok ''/'' (a @ CHR ''/'' # r) = Some (a, r)"
  by (rule strtok_word(1)) auto

lemma strtok_slash_slash:
  "a \<noteq> [] \<Longrightarrow> CHR ''/'' \<notin> set a \<Longrightarrow> strtok ''/'' (CHR ''/'' # a @ CHR ''/'' # r) = Some (a, r)"
  using strtok_skip [of "CHR ''/''" "''/''"] strtok_slash by simp

text \<open>What stands between the scheme and the path.\<close>

definition host_port :: "string \<Rightarrow> nat option \<Rightarrow> string" where
  "host_port h po = h @ (case po of None \<Rightarrow> [] | Some p \<Rightarrow> CHR '':'' # show_nat p)"

lemma authority_host_port: "authority h po pth = host_port h po @ CHR ''/'' # pth"
  by (simp add: authority_def host_port_def)

lemma host_port_token:
  assumes "host_name h" and "h \<noteq> []"
  shows "host_port h po \<noteq> []" "CHR ''/'' \<notin> set (host_port h po)"
    "ip_port (host_port h po) = (Some h, map_option show_nat po)"
  using assms ip_port_parts [OF assms] show_nat_no_slash(1)
  by (cases po; simp add: host_port_def host_name_def)+

lemma web_port_show: "p \<le> 2147483647 \<Longrightarrow> web_port (Some (show_nat p)) = word_of_nat p"
  using atoi_show_nat [of p] by (simp add: web_port_def)

lemma myweb_target_https:
  assumes "host_name h" and "h \<noteq> []" and "pth \<noteq> []" and "hd pth \<noteq> CHR ''/''"
  shows "myweb_target (''https://'' @ authority h po pth) =
    Some \<lparr>SSLmode = True, w_host = Some h, w_port = web_port (map_option show_nat po),
      w_path = Some (takeWhile (\<lambda>c. c \<noteq> CHR ''/'') pth)\<rparr>"
proof -
  note hp = host_port_token [OF assms(1,2), of po]
  have first: "strtok ''/'' (''https://'' @ authority h po pth) = Some (''https:'', CHR ''/'' # authority h po pth)"
    using strtok_slash [of "''https:''" "CHR ''/'' # authority h po pth"] by simp
  have second: "next_token (CHR ''/'' # authority h po pth) = (Some (host_port h po), pth)"
    using strtok_slash_slash [OF hp(1,2), of pth] by (simp add: next_token_def authority_host_port)
  show ?thesis
    unfolding myweb_target_def first using second hp(3) next_token_path [OF assms(3,4)] by simp
qed

section \<open>Properties\<close>

text \<open>
  C13. A download over TLS, from the URL to the file. The header is collected in a stack buffer
  that is never initialised, behind the string \<open>w_temp e\<close> that it happens to hold. For
  \<open>https://host:port/path\<close> with a path of one component, when the leftover and the header of the
  response fit the buffer, the first end of a header in the two together is that of the
  response and the first length field in them gives a number, the program sends the GET
  request for this path and host and stores as many bytes behind the header as the number
  says, without those that are NUL. A leftover with a length field of its own is read instead of
  that of the response.
\<close>

theorem myweb_saves_body:
  assumes "host_name h" "h \<noteq> []" "pth \<noteq> []" "CHR ''/'' \<notin> set pth" "p \<le> 2147483647"
    and "w_resolves e h" "w_sock_ok e" "w_connects e h (word_of_nat p)" "w_ssl_ok e" "w_fopen_ok e"
    and "length (web_request False pth h) < 1024"
    and "w_secure e = hdr @ head_end @ body" "NUL \<notin> set hdr" "length (w_temp e) + length hdr < 2044"
    and "strstr head_end (w_temp e @ hdr @ butlast head_end) = None"
    and "strstr length_key (w_temp e @ hdr @ head_end) = Some (length_key @ show_nat n @ CR # post)" "n \<le> 2147483647"
  shows "myweb_main e (''https://'' @ authority h (Some p) pth) None =
    Some \<lparr>w_status = 0, w_sent = web_request False pth h @ [NUL], w_shown = [],
      w_saved = Some (filter (\<lambda>c. c \<noteq> NUL) (take n body))\<rparr>"
proof -
  let ?temp = "w_temp e @ hdr @ head_end"
  have path: "hd pth \<noteq> CHR ''/''" using assms(3,4) hd_in_set [of pth] by metis
  have whole: "takeWhile (\<lambda>c. c \<noteq> CHR ''/'') pth = pth" using assms(4) by (auto simp: takeWhile_eq_all_conv)
  note target = myweb_target_https [OF assms(1-3) path, of "Some p"]
  have "read_header (w_temp e) ((hdr @ head_end) @ body) = Some (?temp, hdr @ head_end, body)"
    using read_header_stops [of "hdr @ head_end" "w_temp e" body] assms(13-15) strstr_present [of head_end "w_temp e @ hdr" "[]"]
    by (simp add: head_end_def crlf_def CR_def LF_def NUL_def TEMP_SIZE_def butlast_append)
  then have "read_header (w_temp e) (w_secure e) = Some (?temp, hdr @ head_end, body)"
    using assms(12) by simp
  then have "myweb_exchange e (w_secure e) False (Some pth) h =
      Some \<lparr>w_status = 0, w_sent = web_request False pth h @ [NUL], w_shown = [], w_saved = Some (body_loop 0 (int n) body)\<rparr>"
    using assms(10,11) content_length_read [OF assms(16,17)] by (simp add: myweb_exchange_def Let_def)
  then show ?thesis
    using target whole assms(6-9) web_port_show [OF assms(5)] by (simp add: myweb_main_def body_loop_filter)
qed

theorem myweb_saves_body_witness:
  "\<exists>e. w_temp e = ''junk'' \<and> myweb_main e (''https://'' @ authority ''h'' (Some 443) ''x'') None =
    Some \<lparr>w_status = 0, w_sent = web_request False ''x'' ''h'' @ [NUL], w_shown = [],
      w_saved = Some (filter (\<lambda>c. c \<noteq> NUL) (take 3 ''a\<newline>bcd''))\<rparr>"
proof -
  let ?hdr = "''OK'' @ crlf @ ''Content-Length: 3''"
  let ?e = "\<lparr>w_resolves = (\<lambda>h. True), w_sock_ok = True, w_inet_ok = (\<lambda>h. True), w_connects = (\<lambda>h p. True), w_ssl_ok = True,
    w_plain = [], w_secure = ?hdr @ head_end @ ''a\<newline>bcd'', w_fopen_ok = True, w_temp = ''junk'', w_length = 0\<rparr>"
  have "length (web_request False ''x'' ''h'') < 1024" by code_simp
  moreover have "strstr head_end (''junk'' @ ?hdr @ butlast head_end) = None" by code_simp
  moreover have "strstr length_key (''junk'' @ ?hdr @ head_end) = Some (length_key @ show_nat 3 @ CR # LF # crlf)" by code_simp
  moreover have "NUL \<notin> set ?hdr" by (simp add: NUL_def crlf_def CR_def LF_def)
  ultimately show ?thesis
    using myweb_saves_body [of "''h''" "''x''" 443 ?e ?hdr "''a\<newline>bcd''" 3 "LF # crlf"]
    by (intro exI [of _ ?e]) (simp add: host_name_def crlf_def)
qed

text \<open>
  C32. How \<open>myweb.c\<close> reads a URL. With \<open>https://\<close> the host is right, of the path only the part
  before the first slash is requested, and the default port is 80; with \<open>http://\<close>, a form its own
  usage comment gives, the scheme is taken for the host and the host for the path.
\<close>

theorem myweb_reads_url:
  assumes "host_name h" and "h \<noteq> []" and "pth \<noteq> []" and "hd pth \<noteq> CHR ''/''"
  shows "myweb_target (''https://'' @ authority h None pth) =
      Some \<lparr>SSLmode = True, w_host = Some h, w_port = 80, w_path = Some (takeWhile (\<lambda>c. c \<noteq> CHR ''/'') pth)\<rparr> \<and>
    myweb_target (''http://'' @ authority h None pth) =
      Some \<lparr>SSLmode = False, w_host = Some ''http'', w_port = 80, w_path = Some h\<rparr>"
proof
  show "myweb_target (''https://'' @ authority h None pth) =
      Some \<lparr>SSLmode = True, w_host = Some h, w_port = 80, w_path = Some (takeWhile (\<lambda>c. c \<noteq> CHR ''/'') pth)\<rparr>"
    using myweb_target_https [OF assms, of None] by (simp add: web_port_def)
  have first: "strtok ''/'' (''http://'' @ authority h None pth) = Some (''http:'', CHR ''/'' # authority h None pth)"
    using strtok_slash [of "''http:''" "CHR ''/'' # authority h None pth"] by simp
  have second: "next_token (CHR ''/'' # authority h None pth) = (Some h, pth)"
    using strtok_slash_slash [of h pth] assms(1,2) by (simp add: next_token_def authority_def host_name_def)
  have third: "ip_port ''http:'' = (Some ''http'', None)" by (simp add: ip_port_def strtok_def)
  show "myweb_target (''http://'' @ authority h None pth) =
      Some \<lparr>SSLmode = False, w_host = Some ''http'', w_port = 80, w_path = Some h\<rparr>"
    unfolding myweb_target_def first using second third by (simp add: web_port_def)
qed

theorem myweb_reads_url_witness:
  "myweb_target (''https://'' @ authority ''example.com'' None ''a/b.html'') =
      Some \<lparr>SSLmode = True, w_host = Some ''example.com'', w_port = 80, w_path = Some ''a''\<rparr> \<and>
    myweb_target (''http://'' @ authority ''example.com'' None ''a/b.html'') =
      Some \<lparr>SSLmode = False, w_host = Some ''http'', w_port = 80, w_path = Some ''example.com''\<rparr>"
  using myweb_reads_url [of "''example.com''" "''a/b.html''"] by (simp add: host_name_def)

end
