(* ===== verification/LabTransfer.thy ===== *)
theory LabTransfer
  imports CText "HOL-Library.Signed_Division"
begin

text \<open>
  The first version of the TCP file transfer, \<open>archive/file-transfer/tcp-file-transfer\<close>:
  the server answers one request per connection, the client asks for the size, divides the
  file into segments and starts a thread per segment, which prints what it received. The
  result of each \<open>read\<close> is an argument, so that short reads are covered; memory that is read
  before it is written is an argument too.
\<close>

section \<open>Numbers in network order\<close>

definition be_bytes :: "nat \<Rightarrow> nat \<Rightarrow> bytes" where
  "be_bytes k v = rev (le_bytes k v)"

definition ntohl :: "bytes \<Rightarrow> nat" where
  "ntohl b = le_val (rev (take 4 b))"

definition htonl :: "int \<Rightarrow> bytes" where
  "htonl n = be_bytes 4 (nat (n mod 2 ^ 32))"

section \<open>The server\<close>

text \<open>The variables of \<open>main\<close> that live across connections.\<close>

record lab_server =
  ls_flag :: char
  ls_response :: bytes

datatype lab_result = Served | Server_exit | Overrun

text \<open>What one connection makes the server read, in order; \<open>None\<close> is a failed \<open>read\<close>.\<close>

record lab_reads =
  r_name :: "bytes option"
  r_flag :: "bytes option"
  r_offset :: "bytes option"
  r_size :: "bytes option"

definition read_into :: "bytes \<Rightarrow> bytes \<Rightarrow> bytes" where
  "read_into got buf = blit 0 got buf"

definition LAB_BUFFER :: nat where
  "LAB_BUFFER = 2048"

text \<open>
  The answer to a request for a segment. Nothing compares the requested size with the buffer
  the file is read into: a longer chunk overruns it, which \<open>Overrun\<close> records beside the bytes
  that \<open>send\<close> is then asked to send.
\<close>

definition serve_segment :: "bytes \<Rightarrow> lab_reads \<Rightarrow> lab_server \<Rightarrow> lab_server \<times> bytes \<times> lab_result" where
  "serve_segment content r s =
     (case r_offset r of
        None \<Rightarrow> (s, [], Server_exit)
      | Some a \<Rightarrow>
          (let resp = read_into a (ls_response s); offset = ntohl resp
           in case r_size r of
             None \<Rightarrow> (s\<lparr>ls_response := resp\<rparr>, [], Server_exit)
           | Some b \<Rightarrow>
               (let resp' = read_into b resp; chunk = seg offset (ntohl resp') content; s' = s\<lparr>ls_response := resp'\<rparr>
                in (s', chunk, if LAB_BUFFER < length chunk then Overrun else Served))))"

definition serve_size :: "bytes \<Rightarrow> bytes" where
  "serve_size content = htonl (int (length content))"

text \<open>
  One turn of the loop: the new state, the bytes written to the client, and how it ended.
  \<open>name\<close> is what the buffer for the name holds before the read.
\<close>

definition lab_serve :: "file_system \<Rightarrow> bytes \<Rightarrow> lab_reads \<Rightarrow> lab_server \<Rightarrow> lab_server \<times> bytes \<times> lab_result" where
  "lab_serve fs name r s =
     (case r_name r of
        None \<Rightarrow> (s, [], Server_exit)
      | Some n \<Rightarrow>
          (let buf = read_into n name
           in if \<not> terminated buf then (s, [], Overrun)
              else case fs (cstr buf) of
                None \<Rightarrow> (s, ''1'', Server_exit)
              | Some content \<Rightarrow>
                  (case r_flag r of
                     None \<Rightarrow> (s, ''0'', Server_exit)
                   | Some f \<Rightarrow>
                       (let s1 = (if f = [] then s else s\<lparr>ls_flag := hd f\<rparr>)
                        in if ls_flag s1 = CHR ''1''
                           then (let (s2, out, res) = serve_segment content r s1 in (s2, ''0'' @ out, res))
                           else if ls_flag s1 = CHR ''0'' then (s1, ''0'' @ serve_size content, Served)
                           else (s1, ''0'', Served)))))"

text \<open>Start-up of the server: the process ends, or it listens on the port of its argument.\<close>

definition lab_start :: "string list \<Rightarrow> bool \<Rightarrow> (16 word \<Rightarrow> bool) \<Rightarrow> bool \<Rightarrow> 16 word option" where
  "lab_start args socket_ok bind_ok listen_ok =
     (if length args \<noteq> 1 \<or> \<not> socket_ok then None
      else let port = word_of_int (atoi (hd args))
        in if \<not> bind_ok port \<or> \<not> listen_ok then None else Some port)"

text \<open>
  The loop over the connections: for each what its name buffer holds and what is read, \<open>None\<close>
  for a failed \<open>accept\<close>. The state, what was written to each client, and how it ended.
\<close>

fun lab_loop ::
  "file_system \<Rightarrow> (bytes \<times> lab_reads) option list \<Rightarrow> lab_server \<Rightarrow> lab_server \<times> bytes list \<times> lab_result" where
  "lab_loop fs [] s = (s, [], Served)"
| "lab_loop fs (None # cs) s = (s, [], Server_exit)"
| "lab_loop fs (Some (name, r) # cs) s =
     (case lab_serve fs name r s of
        (s', out, Served) \<Rightarrow> (let (s'', outs, res) = lab_loop fs cs s' in (s'', out # outs, res))
      | (s', out, res) \<Rightarrow> (s', [out], res))"

section \<open>The client\<close>

text \<open>
  A line of the server list: the address and the port; \<open>None\<close> when a token is missing or the
  sixteen bytes that are copied of the address hold no terminator.
\<close>

definition lab_delims :: string where
  "lab_delims = [CHR '' '', CHR 0x09]"

definition lab_line :: "string \<Rightarrow> (string \<times> int) option" where
  "lab_line line =
     (case strtok lab_delims line of
        None \<Rightarrow> None
      | Some (ip, r) \<Rightarrow>
          (case strtok lab_delims r of
             None \<Rightarrow> None
           | Some (p, _) \<Rightarrow> if 16 \<le> length ip then None else Some (ip, atoi p)))"

fun lab_servers :: "nat \<Rightarrow> string list \<Rightarrow> (string \<times> int) list option" where
  "lab_servers 0 lines = Some []"
| "lab_servers (Suc k) [] = Some []"
| "lab_servers (Suc k) (l # ls) =
     (case lab_line l of
        None \<Rightarrow> None
      | Some s \<Rightarrow> (case lab_servers k ls of None \<Rightarrow> None | Some ss \<Rightarrow> Some (s # ss)))"

text \<open>The size query of \<open>main\<close>: what is written, and the size from what is read back.\<close>

definition size_query :: "string \<Rightarrow> bytes \<times> bytes" where
  "size_query filename = (filename, ''0'')"

definition lab_filesize :: "int \<Rightarrow> bytes option \<Rightarrow> bytes \<Rightarrow> bytes \<Rightarrow> int" where
  "lab_filesize junk flag got resp = (case flag of None \<Rightarrow> junk | Some _ \<Rightarrow> to_int (int (ntohl (read_into got resp))))"

text \<open>The segment of thread \<open>i\<close> of \<open>num\<close>, with the division of C, which rounds towards zero.\<close>

definition segment_start :: "int \<Rightarrow> nat \<Rightarrow> nat \<Rightarrow> int" where
  "segment_start filesize num i = int i * (filesize sdiv int num)"

definition segment_size :: "int \<Rightarrow> nat \<Rightarrow> nat \<Rightarrow> int" where
  "segment_size filesize num i =
     (if i = num - 1 then filesize - (filesize sdiv int num) * (int num - 1) else filesize sdiv int num)"

text \<open>
  The threads \<open>main\<close> starts: address, port, start and size. Every thread connects to the
  address of the third server, at the port of its own one.
\<close>

definition lab_threads :: "(string \<times> int) list \<Rightarrow> int \<Rightarrow> (string \<times> int \<times> int \<times> int) list option" where
  "lab_threads servers filesize =
     (if length servers < 3 then None
      else Some (map (\<lambda>i. (fst (servers ! 2), snd (servers ! i), segment_start filesize (length servers) i,
                         segment_size filesize (length servers) i)) [0..<length servers]))"

text \<open>
  \<open>main\<close>: the threads it starts; \<open>None\<close> is the exit for a wrong number of arguments, a missing
  server list or an undefined step. \<open>lines\<close> is the server list, \<open>size\<close> the answer to the query.
\<close>

definition lab_client_main ::
  "string list \<Rightarrow> (string \<Rightarrow> string list option) \<Rightarrow> int \<Rightarrow> bytes option \<Rightarrow> bytes \<Rightarrow> bytes \<Rightarrow>
     (string \<times> int \<times> int \<times> int) list option" where
  "lab_client_main args lines junk flag got resp =
     (case args of
        [info, num, filename] \<Rightarrow>
          (case lines info of
             None \<Rightarrow> None
           | Some ls \<Rightarrow>
               (case lab_servers (nat (atoi num)) ls of
                  None \<Rightarrow> None
                | Some servers \<Rightarrow> lab_threads servers (lab_filesize junk flag got resp)))
      | _ \<Rightarrow> None)"

text \<open>
  What a thread writes: first the eight bytes (the size of a pointer) at the name, and after
  the answer \<open>0\<close> the literal \<open>"1"\<close> with its NUL, the start and the size. \<open>beyond\<close> is the memory
  behind the name.
\<close>

definition name_bytes :: "string \<Rightarrow> bytes \<Rightarrow> bytes" where
  "name_bytes filename beyond = take 8 (filename @ NUL # beyond)"

definition segment_request :: "int \<Rightarrow> int \<Rightarrow> bytes" where
  "segment_request start sz = ''1'' @ [NUL] @ htonl start @ htonl sz"

text \<open>
  \<open>fileTransfer\<close>: the bytes written and the chunk read. \<open>answer\<close> is the byte read back, \<open>got\<close> the
  one \<open>read\<close> of the chunk; more bytes than the buffer holds overrun it.
\<close>

datatype lab_thread = Refused | Thread_exited | Chunk_overrun | Chunk bytes

definition fileTransfer ::
  "string \<Rightarrow> bytes \<Rightarrow> int \<Rightarrow> int \<Rightarrow> char \<Rightarrow> bool \<Rightarrow> bool \<Rightarrow> bytes option \<Rightarrow> bytes \<times> lab_thread" where
  "fileTransfer filename beyond start sz answer start_written size_written got =
     (if answer \<noteq> CHR ''0'' then (name_bytes filename beyond, Refused)
      else if \<not> start_written then (name_bytes filename beyond @ ''1'' @ [NUL], Thread_exited)
      else if \<not> size_written then (name_bytes filename beyond @ ''1'' @ [NUL] @ htonl start, Thread_exited)
      else (name_bytes filename beyond @ segment_request start sz,
        case got of
          None \<Rightarrow> Thread_exited
        | Some b \<Rightarrow> if LAB_BUFFER < length b then Chunk_overrun else Chunk b))"

section \<open>Lemmas\<close>

lemma length_be_bytes [simp]: "length (be_bytes k v) = k"
  by (simp add: be_bytes_def)

lemma length_htonl [simp]: "length (htonl n) = 4"
  by (simp add: htonl_def)

lemma ntohl_htonl: "ntohl (htonl n) = nat (n mod 2 ^ 32)"
proof -
  have "nat (n mod 2 ^ 32) < 256 ^ 4" by (simp add: nat_less_iff)
  then have "le_val (le_bytes 4 (nat (n mod 2 ^ 32))) = nat (n mod 2 ^ 32)" by (rule le_val_bytes)
  then show ?thesis by (simp add: ntohl_def htonl_def be_bytes_def)
qed

lemma read_into_full: "length got = length buf \<Longrightarrow> read_into got buf = got"
  by (simp add: read_into_def)

lemma le_val_append: "le_val (a @ b) = le_val a + 256 ^ length a * le_val b"
  by (induction a) (simp_all add: algebra_simps)

lemma be_bytes_4: "be_bytes 4 v = rev (le_bytes 3 (v div 256)) @ [char_of (v mod 256)]"
proof -
  have "(4 :: nat) = Suc 3" by simp
  then have "le_bytes 4 v = char_of (v mod 256) # le_bytes 3 (v div 256)" by (simp only: le_bytes.simps)
  then show ?thesis by (simp add: be_bytes_def)
qed

text \<open>Four bytes of a number in network order, shifted by one byte.\<close>

lemma ntohl_shifted:
  assumes "v < 2 ^ 32"
  shows "ntohl (c # rev (le_bytes 3 (v div 256))) = of_char c * 2 ^ 24 + v div 256"
proof -
  have "v div 256 < 256 ^ 3" using assms by (simp add: div_less_iff_less_mult)
  then have "le_val (le_bytes 3 (v div 256)) = v div 256" by (rule le_val_bytes)
  then show ?thesis by (simp add: ntohl_def le_val_append)
qed

lemma segment_request_reads:
  assumes "0 \<le> start" "start < 2 ^ 32" and "0 \<le> sz" "sz < 2 ^ 32"
  shows "take 1 (segment_request start sz) = ''1''"
    "ntohl (seg 1 4 (segment_request start sz)) = nat start div 256"
    "ntohl (seg 5 4 (segment_request start sz)) = (nat start mod 256) * 2 ^ 24 + nat sz div 256"
proof -
  have v: "nat start < 2 ^ 32" "nat sz < 2 ^ 32" using assms by (simp_all add: nat_less_iff)
  have h: "htonl start = be_bytes 4 (nat start)" "htonl sz = be_bytes 4 (nat sz)" using assms by (simp_all add: htonl_def)
  let ?a = "rev (le_bytes 3 (nat start div 256))" and ?b = "rev (le_bytes 3 (nat sz div 256))"
  have req: "segment_request start sz = ''1'' @ (NUL # ?a) @ (char_of (nat start mod 256) # ?b) @ [char_of (nat sz mod 256)]"
    by (simp add: segment_request_def h be_bytes_4)
  show "take 1 (segment_request start sz) = ''1''" by (simp add: segment_request_def)
  have "seg 1 4 (segment_request start sz) = NUL # ?a" unfolding req by (simp add: seg_def)
  then show "ntohl (seg 1 4 (segment_request start sz)) = nat start div 256"
    using ntohl_shifted [OF v(1), of NUL] by (simp add: NUL_def)
  have "seg 5 4 (segment_request start sz) = char_of (nat start mod 256) # ?b" unfolding req by (simp add: seg_def)
  then show "ntohl (seg 5 4 (segment_request start sz)) = (nat start mod 256) * 2 ^ 24 + nat sz div 256"
    using ntohl_shifted [OF v(2), of "char_of (nat start mod 256)"] by simp
qed

lemma name_received:
  assumes "NUL \<notin> set f" and "length f < 8" and "length name = 300"
  shows "cstr (read_into (name_bytes f beyond) name) = f \<and> terminated (read_into (name_bytes f beyond) name)"
proof -
  have "name_bytes f beyond = f @ NUL # take (7 - length f) beyond"
    using assms(2) by (simp add: name_bytes_def take_Cons')
  then obtain t where "read_into (name_bytes f beyond) name = f @ NUL # t" by (simp add: read_into_def blit_def)
  then show ?thesis using assms(1) by (simp add: terminated_def)
qed

lemma quotient_bounds:
  assumes "0 < num" and "0 \<le> (filesize :: int)"
  shows "filesize sdiv int num = filesize div int num" "0 \<le> filesize div int num"
    "filesize div int num * int num \<le> filesize"
proof -
  show "filesize sdiv int num = filesize div int num" "0 \<le> filesize div int num"
    using assms by (simp_all add: signed_divide_int_def sgn_if pos_imp_zdiv_nonneg_iff)
  have "0 \<le> filesize mod int num" using assms(1) by simp
  then show "filesize div int num * int num \<le> filesize" using div_mult_mod_eq [of filesize "int num"] by linarith
qed

lemma segments_prefix:
  assumes "k * q \<le> length content"
  shows "concat (map (\<lambda>i. seg (i * q) q content) [0..<k]) = take (k * q) content"
  using assms
proof (induction k)
  case (Suc k)
  then have "concat (map (\<lambda>i. seg (i * q) q content) [0..<k]) = take (k * q) content" by simp
  moreover have "take (k * q) content @ seg (k * q) q content = take (Suc k * q) content"
    by (simp add: seg_def take_add [symmetric] add.commute)
  ultimately show ?case by simp
qed simp

section \<open>Properties\<close>

text \<open>
  C14. The segments of the threads are a partition of the file: for every non-negative size
  and positive number of threads, the segments in the order of the threads give back the
  whole file, the last one taking what the division leaves over.
\<close>

theorem lab_segments_partition:
  assumes "0 < num" and "filesize = int (length content)"
  shows "concat (map (\<lambda>i. seg (nat (segment_start filesize num i)) (nat (segment_size filesize num i)) content) [0..<num]) = content"
proof -
  have nn: "0 \<le> filesize" using assms(2) by simp
  note q = quotient_bounds [OF assms(1) nn]
  let ?q = "length content div num"
  have div: "filesize div int num = int ?q" using assms(2) by (simp add: zdiv_int)
  obtain m where m: "num = Suc m" using assms(1) by (cases num) auto
  have mq: "m * ?q \<le> length content" using div_times_less_eq_dividend [of "length content" num] m
    by (metis add.commute le_add1 le_trans mult.commute mult_Suc)
  have start: "nat (segment_start filesize num i) = i * ?q" for i
    unfolding segment_start_def q(1) div by (simp only: of_nat_mult [symmetric] nat_int)
  have size: "segment_size filesize num i = int ?q" if "i < m" for i
    using that m unfolding segment_size_def q(1) div by simp
  have "segment_size filesize num m = filesize - int ?q * int m"
    using m unfolding segment_size_def q(1) div by simp
  also have "\<dots> = int (length content - m * ?q)" using mq assms(2) by (simp add: of_nat_diff mult.commute)
  finally have last: "nat (segment_size filesize num m) = length content - m * ?q" by simp
  have "concat (map (\<lambda>i. seg (nat (segment_start filesize num i)) (nat (segment_size filesize num i)) content) [0..<m]) =
      concat (map (\<lambda>i. seg (i * ?q) ?q content) [0..<m])"
    by (intro arg_cong [where f = concat] map_cong refl) (simp add: start size)
  also have "\<dots> = take (m * ?q) content" using mq by (rule segments_prefix)
  finally have "concat (map (\<lambda>i. seg (nat (segment_start filesize num i)) (nat (segment_size filesize num i)) content) [0..<Suc m]) =
      take (m * ?q) content @ seg (m * ?q) (length content - m * ?q) content"
    by (simp add: start last)
  then show ?thesis using m by (simp add: seg_def)
qed

theorem lab_segments_partition_witness:
  "concat (map (\<lambda>i. seg (nat (segment_start 8 3 i)) (nat (segment_size 8 3 i)) ''abcdefgh'') [0..<3]) = ''abcdefgh''"
  by (rule lab_segments_partition) simp_all

text \<open>
  C27. The request of a thread is misread. The client sends the flag with its terminating
  NUL, the server reads one byte of it, so that both numbers arrive shifted by one byte: the
  server seeks to the start divided by 256, takes the low byte of the start for the high
  byte of the size, and sends that part of the file, after overrunning its buffer when that
  part is longer than 2048 bytes.
\<close>

theorem lab_request_misread:
  assumes "NUL \<notin> set f" "length f < 8" "length name = 300" "fs f = Some content" "length (ls_response s) = 4"
    and "0 \<le> start" "start < 2 ^ 32" "0 \<le> sz" "sz < 2 ^ 32"
    and "r = \<lparr>r_name = Some (name_bytes f beyond), r_flag = Some (take 1 (segment_request start sz)),
      r_offset = Some (seg 1 4 (segment_request start sz)), r_size = Some (seg 5 4 (segment_request start sz))\<rparr>"
    and "chunk = seg (nat start div 256) ((nat start mod 256) * 2 ^ 24 + nat sz div 256) content"
  shows "snd (lab_serve fs name r s) = (''0'' @ chunk, if LAB_BUFFER < length chunk then Overrun else Served)"
proof -
  note req = segment_request_reads [OF assms(6-9)]
  have len: "length (seg 1 4 (segment_request start sz)) = 4" "length (seg 5 4 (segment_request start sz)) = 4"
    by (simp_all add: segment_request_def)
  note name = name_received [OF assms(1-3), of beyond]
  have "serve_segment content r (s\<lparr>ls_flag := CHR ''1''\<rparr>) =
      (s\<lparr>ls_flag := CHR ''1'', ls_response := seg 5 4 (segment_request start sz)\<rparr>,
       chunk, if LAB_BUFFER < length chunk then Overrun else Served)"
    using assms(5,10,11) len req by (simp add: serve_segment_def Let_def read_into_full)
  then show ?thesis using name assms(4,10) req(1) by (simp add: lab_serve_def Let_def)
qed

theorem lab_request_misread_witness:
  "snd (lab_serve [''f'' \<mapsto> ''abcdefgh''] (replicate 300 NUL)
     \<lparr>r_name = Some (name_bytes ''f'' ''env=1xy''), r_flag = Some (take 1 (segment_request 256 1024)),
      r_offset = Some (seg 1 4 (segment_request 256 1024)), r_size = Some (seg 5 4 (segment_request 256 1024))\<rparr>
     \<lparr>ls_flag = NUL, ls_response = replicate 4 NUL\<rparr>) = (''0bcde'', Served)"
proof -
  have "seg (nat 256 div 256) ((nat 256 mod 256) * 2 ^ 24 + nat 1024 div 256) ''abcdefgh'' = ''bcde''" by (simp add: seg_def)
  then show ?thesis
    using lab_request_misread [of "''f''" "replicate 300 NUL" "[''f'' \<mapsto> ''abcdefgh'']" "''abcdefgh''"
      "\<lparr>ls_flag = NUL, ls_response = replicate 4 NUL\<rparr>" 256 1024 _ "''env=1xy''", OF _ _ _ _ _ _ _ _ _ refl refl]
    by (simp add: NUL_def LAB_BUFFER_def)
qed

text \<open>
  C16. The size query, for a name that arrives in one read. The client sends the name without a
  terminator into a buffer that the server never initialises, so what the server opens is the
  name followed by what the buffer held behind it, up to the first NUL; that is the name that
  was asked for exactly when the next byte happened to be NUL. When the file so named exists and
  has less than 2 GiB the client reads back its length, and when it does not the server
  exits.
\<close>

theorem lab_size_round_trip:
  assumes "NUL \<notin> set f" "length name = 300" "terminated (drop (length f) name)" "g = f @ cstr (drop (length f) name)"
    and "length resp = 4"
    and "r = \<lparr>r_name = Some (fst (size_query f)), r_flag = Some (snd (size_query f)), r_offset = None, r_size = None\<rparr>"
  shows "(case fs g of
        None \<Rightarrow> lab_serve fs name r s = (s, ''1'', Server_exit)
      | Some content \<Rightarrow> length content < 2 ^ 31 \<longrightarrow>
          (\<exists>s' reply. lab_serve fs name r s = (s', ''0'' @ reply, Served) \<and>
             lab_filesize junk (Some ''0'') reply resp = int (length content))) \<and>
    (g = f \<longleftrightarrow> name ! length f = NUL)"
proof -
  have "read_into f name = f @ drop (length f) name" by (simp add: read_into_def blit_def)
  then have name: "cstr (read_into f name) = g" "terminated (read_into f name)"
    using assms(1,3,4) by (simp_all add: terminated_def cstr_append)
  have reply: "lab_filesize junk (Some ''0'') (serve_size content) resp = int (length content)" if "length content < 2 ^ 31" for content
  proof -
    have small: "int (length content) < 2 ^ 31" using that by (simp flip: of_nat_less_iff)
    then have "ntohl (read_into (serve_size content) resp) = length content"
      using assms(5) by (simp add: serve_size_def read_into_full ntohl_htonl)
    then show ?thesis using small by (simp add: lab_filesize_def to_int_small)
  qed
  have "length f < length name" using assms(3) by (cases "length f < length name") (simp_all add: terminated_def)
  then have "g = f \<longleftrightarrow> name ! length f = NUL"
    using assms(4) by (simp add: cstr_def Cons_nth_drop_Suc [symmetric])
  then show ?thesis using name reply assms(6) by (simp add: lab_serve_def size_query_def Let_def split: option.split)
qed

theorem lab_size_round_trip_witness:
  "\<exists>s' reply. lab_serve [''f.txt'' \<mapsto> ''abcdefgh''] (''g.txt'' @ replicate 295 NUL) \<lparr>r_name = Some (fst (size_query ''f'')),
        r_flag = Some (snd (size_query ''f'')), r_offset = None, r_size = None\<rparr> \<lparr>ls_flag = NUL, ls_response = []\<rparr> =
        (s', ''0'' @ reply, Served) \<and>
      lab_filesize 0 (Some ''0'') reply (replicate 4 NUL) = int (length ''abcdefgh'')"
proof -
  let ?name = "''g.txt'' @ replicate 295 NUL"
  have nul: "NUL \<notin> set ''f''" "length ?name = 300" by (simp_all add: NUL_def)
  have rest: "terminated (drop (length ''f'') ?name)" "''f.txt'' = ''f'' @ cstr (drop (length ''f'') ?name)" by code_simp+
  have four: "length (replicate 4 NUL) = 4" by simp
  from lab_size_round_trip [OF nul rest four refl, of "[''f.txt'' \<mapsto> ''abcdefgh'']" "\<lparr>ls_flag = NUL, ls_response = []\<rparr>" 0]
  show ?thesis by simp
qed

end
