(* ===== verification/LabPackets.thy ===== *)
theory LabPackets
  imports LabTransfer "HOL-Library.Monad_Syntax"
begin

text \<open>
  The packet version of the UDP exercise, \<open>archive/file-transfer/udp-file-transfer/test/lab3\<close>:
  \<open>packet.h\<close>, the server and the client. A packet is the block of memory that holds its
  \<open>struct\<close>, because the programs send that block as it is and overrun its fields: the command
  at offset 0, the name at 4, the size at 104, the start at 108 and the pointer \<open>content\<close> at
  112. A store outside its block is \<open>None\<close>.
\<close>

section \<open>Packets\<close>

datatype commandinfo = no_command | request_filesize | respond_filesize | request_chunkcontent | respond_chunkcontent

fun command_code :: "commandinfo \<Rightarrow> int" where
  "command_code no_command = 0"
| "command_code request_filesize = 1"
| "command_code respond_filesize = 2"
| "command_code request_chunkcontent = 3"
| "command_code respond_chunkcontent = 4"

definition MAX_CONTENT_SIZE :: nat where
  "MAX_CONTENT_SIZE = 100"

definition PACKETINFO :: nat where
  "PACKETINFO = 120"

definition int_bytes :: "int \<Rightarrow> bytes" where
  "int_bytes n = le_bytes 4 (nat (n mod 2 ^ 32))"

definition int_at :: "nat \<Rightarrow> bytes \<Rightarrow> int" where
  "int_at off b = to_int (int (le_val (seg off 4 b)))"

abbreviation pkt_command :: "bytes \<Rightarrow> int" where
  "pkt_command \<equiv> int_at 0"

abbreviation pkt_byte_size :: "bytes \<Rightarrow> int" where
  "pkt_byte_size \<equiv> int_at 104"

abbreviation pkt_start_byte :: "bytes \<Rightarrow> int" where
  "pkt_start_byte \<equiv> int_at 108"

definition pkt_filename :: "bytes \<Rightarrow> string" where
  "pkt_filename b = cstr (drop 4 b)"

definition store :: "nat \<Rightarrow> bytes \<Rightarrow> bytes \<Rightarrow> bytes option" where
  "store off ys b = (if off + length ys \<le> length b then Some (blit off ys b) else None)"

definition empty_pkt :: bytes where
  "empty_pkt = replicate (PACKETINFO + MAX_CONTENT_SIZE) NUL"

text \<open>
  \<open>revised_pkt\<close> in the order of its stores; the name is copied with its terminator and a second
  one is put behind it. A size below \<open>-120\<close> wraps to one that \<open>calloc\<close> cannot give.
\<close>

definition revised_pkt :: "commandinfo \<Rightarrow> int \<Rightarrow> int \<Rightarrow> string \<Rightarrow> bytes option \<Rightarrow> bytes option" where
  "revised_pkt c bsize start name content =
     (if int PACKETINFO + bsize < 0 then None
      else do {
        b \<leftarrow> store 0 (int_bytes (command_code c)) (replicate (nat (int PACKETINFO + bsize)) NUL);
        b \<leftarrow> store 104 (int_bytes bsize) b;
        b \<leftarrow> store 108 (int_bytes start) b;
        b \<leftarrow> store 4 (name @ [NUL]) b;
        b \<leftarrow> store (4 + length name + 1) [NUL] b;
        (case content of None \<Rightarrow> Some b | Some t \<Rightarrow> store 112 (take (nat bsize) t) b)
      })"

section \<open>The server\<close>

datatype srv_result = Srv_sent bytes | Srv_nothing | Srv_exit | Srv_undefined

text \<open>\<open>sendto\<close> of the first \<open>n\<close> bytes of a block; a shorter block is read beyond its end.\<close>

definition send_block :: "nat \<Rightarrow> bytes option \<Rightarrow> srv_result" where
  "send_block n p =
     (case p of None \<Rightarrow> Srv_undefined | Some b \<Rightarrow> if length b < n then Srv_undefined else Srv_sent (take n b))"

definition sendFileSize :: "(string \<Rightarrow> bytes option) \<Rightarrow> bytes \<Rightarrow> srv_result" where
  "sendFileSize fs pkt_in =
     (case fs (pkt_filename pkt_in) of
        None \<Rightarrow> Srv_exit
      | Some content \<Rightarrow>
          send_block PACKETINFO (revised_pkt respond_filesize (to_int (int (length content))) 0 (pkt_filename pkt_in) None))"

text \<open>
  \<open>fgets\<close> into the pointer \<open>content\<close>, which \<open>calloc\<close> has left null: harmless only when nothing is
  stored, because the size is not positive or because it is above one and no byte is left.
\<close>

definition fgets_into_null :: "int \<Rightarrow> bytes \<Rightarrow> bool" where
  "fgets_into_null n rest \<longleftrightarrow> n \<le> 0 \<or> n \<noteq> 1 \<and> rest = []"

text \<open>\<open>openable\<close> are the files that \<open>fopen\<close> opens for update; a negative \<open>fseek\<close> fails and is ignored.\<close>

definition sendChunkContent :: "(string \<Rightarrow> bytes option) \<Rightarrow> (string \<Rightarrow> bool) \<Rightarrow> bytes \<Rightarrow> srv_result" where
  "sendChunkContent fs openable pkt_in =
     (case (if openable (pkt_filename pkt_in) then fs (pkt_filename pkt_in) else None) of
        None \<Rightarrow> Srv_exit
      | Some content \<Rightarrow>
          (case revised_pkt respond_chunkcontent (pkt_byte_size pkt_in) (pkt_start_byte pkt_in) (pkt_filename pkt_in) None of
             None \<Rightarrow> Srv_undefined
           | Some b \<Rightarrow>
               if \<not> fgets_into_null (pkt_byte_size pkt_in) (drop (nat (pkt_start_byte pkt_in)) content) then Srv_undefined
               else if int PACKETINFO + pkt_byte_size b < 0 then Srv_undefined
               else send_block (nat (int PACKETINFO + pkt_byte_size b)) (Some b)))"

text \<open>
  One turn of the loop of \<open>main\<close>: \<open>pkt_in\<close> is the block, or \<open>None\<close> once it has been freed, which every
  turn does. \<open>None\<close> for the datagram is a \<open>recvfrom\<close> that failed.
\<close>

definition lab3_turn ::
  "(string \<Rightarrow> bytes option) \<Rightarrow> (string \<Rightarrow> bool) \<Rightarrow> bytes option \<Rightarrow> bytes option \<Rightarrow> bytes option \<times> srv_result" where
  "lab3_turn fs openable got pkt_in =
     (case pkt_in of
        None \<Rightarrow> (None, Srv_undefined)
      | Some b \<Rightarrow>
          (case got of
             None \<Rightarrow> (None, Srv_nothing)
           | Some d \<Rightarrow>
               (let p = blit 0 (take PACKETINFO d) b
                in (None,
                    if d = [] then Srv_nothing
                    else if pkt_command p = command_code request_filesize then sendFileSize fs p
                    else if pkt_command p = command_code request_chunkcontent then sendChunkContent fs openable p
                    else Srv_nothing))))"

fun lab3_loop :: "(string \<Rightarrow> bytes option) \<Rightarrow> (string \<Rightarrow> bool) \<Rightarrow> bytes option list \<Rightarrow> bytes option \<Rightarrow> srv_result list" where
  "lab3_loop fs openable [] pkt_in = []"
| "lab3_loop fs openable (got # gots) pkt_in =
     (case lab3_turn fs openable got pkt_in of
        (p, r) \<Rightarrow> if r = Srv_exit \<or> r = Srv_undefined then [r] else r # lab3_loop fs openable gots p)"

definition lab3_server :: "(string \<Rightarrow> bytes option) \<Rightarrow> (string \<Rightarrow> bool) \<Rightarrow> string list \<Rightarrow> bytes option list \<Rightarrow> srv_result list" where
  "lab3_server fs openable args gots =
     (if length args \<noteq> 1 then [Srv_exit] else lab3_loop fs openable gots (Some empty_pkt))"

section \<open>The client\<close>

text \<open>
  How a \<open>recvfrom\<close> of the client returns: with a datagram or an error. The structures with the
  handler for \<open>SIGALRM\<close> are never passed to \<open>sigaction\<close>, so that the alarm ends the process
  instead of interrupting the call.
\<close>

datatype reception = Alarm | Recv_failed | Got bytes

datatype 'a lab3_call = Value 'a | Killed_by_alarm | Blocked | Lab3_undefined

definition into_empty :: "reception \<Rightarrow> bytes" where
  "into_empty r = (case r of Got d \<Rightarrow> blit 0 (take (PACKETINFO + MAX_CONTENT_SIZE) d) empty_pkt | _ \<Rightarrow> empty_pkt)"

text \<open>
  The ten attempts per server of \<open>getFileSize\<close>, over the list of the attempts that are left:
  the datagrams sent with their addressees, and the value returned.
\<close>

fun size_attempts :: "string \<Rightarrow> 'srv list \<Rightarrow> reception list \<Rightarrow> ('srv \<times> bytes) list \<times> int lab3_call" where
  "size_attempts name [] rs = ([], Value (- 1))"
| "size_attempts name (srv # srvs) rs =
     (case revised_pkt request_filesize 0 0 name None of
        None \<Rightarrow> ([], Lab3_undefined)
      | Some pkt_out \<Rightarrow>
          (case rs of
             [] \<Rightarrow> ([(srv, take PACKETINFO pkt_out)], Blocked)
           | r # rs' \<Rightarrow>
               if r = Alarm then ([(srv, take PACKETINFO pkt_out)], Killed_by_alarm)
               else if pkt_command (into_empty r) = command_code respond_filesize
               then ([(srv, take PACKETINFO pkt_out)], Value (pkt_byte_size (into_empty r)))
               else (case size_attempts name srvs rs' of
                       (sent, v) \<Rightarrow> ((srv, take PACKETINFO pkt_out) # sent, v))))"

definition ATTEMPTS :: nat where
  "ATTEMPTS = 10"

definition getFileSize :: "string \<Rightarrow> 'srv list \<Rightarrow> reception list \<Rightarrow> ('srv \<times> bytes) list \<times> int lab3_call" where
  "getFileSize name servers rs = size_attempts name (concat (map (replicate ATTEMPTS) servers)) rs"

text \<open>
  \<open>fileTransfer\<close> of the thread \<open>pid\<close>: a reply does not end the loops. The bytes at the field
  \<open>content\<close> are copied to the front of the array of \<open>filesize\<close> bytes, which is null when the size
  is negative.
\<close>

fun chunk_attempts ::
  "string \<Rightarrow> int \<Rightarrow> int \<Rightarrow> 'srv list \<Rightarrow> reception list \<Rightarrow> bytes option \<Rightarrow> bytes option lab3_call" where
  "chunk_attempts name start sz [] rs content = Value content"
| "chunk_attempts name start sz (srv # srvs) rs content =
     (case revised_pkt request_chunkcontent sz start name None of
        None \<Rightarrow> Lab3_undefined
      | Some pkt_out \<Rightarrow>
          if length pkt_out < PACKETINFO then Lab3_undefined
          else case rs of
             [] \<Rightarrow> Blocked
           | r # rs' \<Rightarrow>
               if r = Alarm then Killed_by_alarm
               else (let p = into_empty r; n = pkt_byte_size p
                 in if pkt_command p \<noteq> command_code respond_chunkcontent then chunk_attempts name start sz srvs rs' content
                    else case content of
                      None \<Rightarrow> Lab3_undefined
                    | Some c \<Rightarrow>
                        if n < 0 \<or> length p < 112 + nat n \<or> length c < nat n then Lab3_undefined
                        else chunk_attempts name start sz srvs rs' (Some (blit 0 (seg 112 (nat n) p) c))))"

definition lab3_fileTransfer ::
  "string \<Rightarrow> int \<Rightarrow> 'srv list \<Rightarrow> nat \<Rightarrow> reception list \<Rightarrow> bytes option lab3_call" where
  "lab3_fileTransfer name filesize servers pid rs =
     chunk_attempts name (segment_start filesize (length servers) pid) (segment_size filesize (length servers) pid)
       (concat (map (replicate ATTEMPTS) (drop pid servers))) rs
       (if filesize < 0 then None else Some (replicate (nat filesize) NUL))"

text \<open>
  The end of \<open>main\<close>: the name of the output file is copied with its terminator into a block of the
  length of the name, then the chunks are printed up to their first NUL.
\<close>

definition output_name :: "string \<Rightarrow> bytes option" where
  "output_name name = store 0 (name @ [NUL]) (replicate (length name) NUL)"

definition put_chunks :: "bytes option list \<Rightarrow> string option" where
  "put_chunks cs =
     (if \<forall>c \<in> set cs. \<exists>b. c = Some b \<and> terminated b then Some (concat (map (\<lambda>c. cstr (the c)) cs)) else None)"

datatype lab3_end = Usage_exit | Not_finished | Output_failed | Undefined_step | Written string string

text \<open>
  \<open>main\<close> of the client. \<open>lines\<close> are the lines of the server list (a missing file is read through a
  null stream), \<open>rs\<close> the receptions of \<open>getFileSize\<close> and \<open>trs\<close> those of the threads.
\<close>

definition lab3_client ::
  "(string \<Rightarrow> string list option) \<Rightarrow> (string \<Rightarrow> bool) \<Rightarrow> reception list \<Rightarrow> (nat \<Rightarrow> reception list) \<Rightarrow> string list \<Rightarrow> lab3_end" where
  "lab3_client lines fopen_ok rs trs args =
     (case args of
        [info, num, name] \<Rightarrow>
          (case lines info of
             None \<Rightarrow> Undefined_step
           | Some ls \<Rightarrow>
               (case lab_servers (nat (atoi num)) ls of
                  None \<Rightarrow> Undefined_step
                | Some servers \<Rightarrow>
                    (case snd (getFileSize name servers rs) of
                       Lab3_undefined \<Rightarrow> Undefined_step
                     | Value filesize \<Rightarrow>
                         (let outs = map (\<lambda>i. lab3_fileTransfer name filesize servers i (trs i)) [0..<length servers]
                          in if Lab3_undefined \<in> set outs then Undefined_step
                             else if \<exists>r \<in> set outs. r = Killed_by_alarm \<or> r = Blocked then Not_finished
                             else case output_name name of
                               None \<Rightarrow> Undefined_step
                             | Some out \<Rightarrow>
                                 if \<not> fopen_ok name then Output_failed
                                 else (case put_chunks (map (\<lambda>r. case r of Value c \<Rightarrow> c | _ \<Rightarrow> None) outs) of
                                         None \<Rightarrow> Undefined_step
                                       | Some t \<Rightarrow> Written name t))
                     | _ \<Rightarrow> Not_finished)))
      | _ \<Rightarrow> Usage_exit)"

section \<open>Lemmas\<close>

lemma length_int_bytes [simp]: "length (int_bytes n) = 4"
  by (simp add: int_bytes_def)

lemma int_at_field: "seg off 4 b = int_bytes n \<Longrightarrow> int_at off b = to_int n"
proof -
  have "nat (n mod 2 ^ 32) < 256 ^ 4" using pos_mod_bound [of "2 ^ 32" n] by simp
  then have "le_val (int_bytes n) = nat (n mod 2 ^ 32)" unfolding int_bytes_def by (rule le_val_bytes)
  moreover have "(word_of_int (n mod 2 ^ 32) :: 32 word) = word_of_int n"
    by (simp add: word_of_int_eq_iff take_bit_eq_mod)
  ultimately show "seg off 4 b = int_bytes n \<Longrightarrow> int_at off b = to_int n" by (simp add: int_at_def to_int_def)
qed

lemma pkt_filename_field:
  assumes "seg 4 (Suc (length name)) b = name @ [NUL]" and "NUL \<notin> set name"
  shows "pkt_filename b = name"
proof -
  have "drop 4 b = name @ NUL # drop (Suc (length name)) (drop 4 b)"
    using assms(1) append_take_drop_id [of "Suc (length name)" "drop 4 b"] by (simp add: seg_def)
  with assms(2) show ?thesis unfolding pkt_filename_def by (metis cstr_append_NUL)
qed

lemma seg_take_blit:
  assumes "off + n \<le> k" and "k \<le> length b" and "k \<le> length e"
  shows "seg off n (blit 0 (take k b) e) = seg off n b"
  using assms by (simp add: seg_def blit_def min_def take_drop)

text \<open>The fields of a packet that is made for a name that fits with both terminators.\<close>

lemma revised_pkt_fields:
  assumes "NUL \<notin> set name" and "length name \<le> 98" and "0 \<le> n"
  obtains b where "revised_pkt c n start name None = Some b" and "length b = PACKETINFO + nat n"
    and "seg 0 4 b = int_bytes (command_code c)" and "seg 104 4 b = int_bytes n" and "seg 108 4 b = int_bytes start"
    and "seg 4 (Suc (length name)) b = name @ [NUL]"
proof -
  let ?z = "replicate (nat (int PACKETINFO + n)) NUL"
  let ?b = "blit (4 + length name + 1) [NUL] (blit 4 (name @ [NUL]) (blit 108 (int_bytes start)
    (blit 104 (int_bytes n) (blit 0 (int_bytes (command_code c)) ?z))))"
  have l: "length ?z = PACKETINFO + nat n" using assms(3) by (simp add: nat_add_distrib)
  then have z: "120 \<le> length ?z" by (simp add: PACKETINFO_def)
  have "\<not> int PACKETINFO + n < 0" using assms(3) by simp
  then have "revised_pkt c n start name None = Some ?b"
    using z assms(2) by (simp add: revised_pkt_def store_def)
  moreover have "length ?b = PACKETINFO + nat n" "seg 0 4 ?b = int_bytes (command_code c)" "seg 104 4 ?b = int_bytes n"
    "seg 108 4 ?b = int_bytes start" "seg 4 (Suc (length name)) ?b = name @ [NUL]"
    using z l assms(2) by (simp_all add: seg_simps)
  ultimately show ?thesis by (rule that)
qed

text \<open>The same fields in the block that a sent packet is received into.\<close>

lemma received_fields:
  assumes "NUL \<notin> set name" and "length name \<le> 98" and "0 \<le> n" "n \<le> 2147483647" and "0 \<le> start" "start \<le> 2147483647"
    and "revised_pkt c n start name None = Some b"
  shows "PACKETINFO \<le> length b" and "int_at 0 (blit 0 (take PACKETINFO b) empty_pkt) = command_code c"
    and "int_at 104 (blit 0 (take PACKETINFO b) empty_pkt) = n"
    and "int_at 108 (blit 0 (take PACKETINFO b) empty_pkt) = start"
    and "pkt_filename (blit 0 (take PACKETINFO b) empty_pkt) = name"
proof -
  obtain b' where b': "revised_pkt c n start name None = Some b'" "length b' = PACKETINFO + nat n"
    "seg 0 4 b' = int_bytes (command_code c)" "seg 104 4 b' = int_bytes n" "seg 108 4 b' = int_bytes start"
    "seg 4 (Suc (length name)) b' = name @ [NUL]"
    using revised_pkt_fields [OF assms(1-3)] by blast
  let ?p = "blit 0 (take PACKETINFO b) empty_pkt"
  have "b' = b" using b'(1) assms(7) by simp
  note b = b'(2-6) [unfolded this]
  then show len: "PACKETINFO \<le> length b" by simp
  have p: "seg off k ?p = seg off k b" if "off + k \<le> 120" for off k
    using len that by (intro seg_take_blit) (simp_all add: PACKETINFO_def empty_pkt_def)
  have "to_int (command_code c) = command_code c" by (cases c) (simp_all add: to_int_def)
  with p [of 0 4] b(2) show "int_at 0 ?p = command_code c" by (simp add: int_at_field)
  show "int_at 104 ?p = n" "int_at 108 ?p = start" using p [of 104 4] p [of 108 4] b(3,4) assms(3-6)
    by (simp_all add: int_at_field to_int_small)
  show "pkt_filename ?p = name"
    using p [of 4 "Suc (length name)"] b(5) assms(1,2) by (intro pkt_filename_field) simp_all
qed

lemma lab3_loop_freed: "lab3_loop fs openable (got # gots) None = [Srv_undefined]"
  by (simp add: lab3_turn_def)

text \<open>A name of 99 characters fits the field, but the second terminator clears the low byte of the size.\<close>

lemma long_name_clears_size:
  "map_option pkt_byte_size (revised_pkt request_chunkcontent 300 0 (replicate 99 (CHR ''a'')) None) = Some 256"
  by code_simp

lemma output_name_overruns: "output_name name = None"
  by (simp add: output_name_def store_def)

text \<open>The block for the name of the output file is too short, so no run of the client writes it.\<close>

lemma lab3_client_writes_nothing: "lab3_client lines fopen_ok rs trs args \<noteq> Written name t"
  by (auto simp: lab3_client_def output_name_overruns Let_def split: list.splits option.splits lab3_call.splits if_splits)

section \<open>Property\<close>

text \<open>
  C33. The first size query works, and nothing else. For a name of at most 98 characters and
  a file whose size an \<open>int\<close> holds, the packet that \<open>getFileSize\<close> sends makes the server answer
  with a packet from which \<open>getFileSize\<close> returns the size of the file. The server has then
  freed its buffer, and the next datagram, whatever it is, is received into freed memory. A
  chunk request for at least two bytes inside the file makes even a fresh server store
  through a null pointer.
\<close>

theorem lab3_one_size_query:
  assumes "NUL \<notin> set name" and "length name \<le> 98" and "fs name = Some content" and "length content \<le> 2147483647"
    and "2 \<le> n" and "0 \<le> start" and "start + n \<le> int (length content)" and "openable name"
  shows "(\<exists>query answer. getFileSize name (srv # srvs) (Got answer # rs) = ([(srv, query)], Value (int (length content))) \<and>
      lab3_server fs openable [port] (Some query # d # later) = [Srv_sent answer, Srv_undefined]) \<and>
    (\<exists>chunk. revised_pkt request_chunkcontent n start name None = Some chunk \<and>
      lab3_server fs openable [port] (Some (take PACKETINFO chunk) # later) = [Srv_undefined])"
proof
  let ?len = "int (length content)"
  obtain q where q: "revised_pkt request_filesize 0 0 name None = Some q"
    using revised_pkt_fields [OF assms(1,2), of 0] by blast
  obtain a where a: "revised_pkt respond_filesize ?len 0 name None = Some a"
    using revised_pkt_fields [OF assms(1,2) of_nat_0_le_iff] by blast
  have len: "0 \<le> ?len" "?len \<le> 2147483647" using assms(4) by simp_all
  note fq = received_fields [OF assms(1,2) _ _ _ _ q, simplified]
  note fa = received_fields [OF assms(1,2) len _ _ a, simplified]
  have ne: "take PACKETINFO q \<noteq> []" using fq(1) by (auto simp: PACKETINFO_def)
  have rep: "replicate ATTEMPTS srv = srv # replicate 9 srv" by (simp add: ATTEMPTS_def numeral_eq_Suc)
  have "into_empty (Got (take PACKETINFO a)) = blit 0 (take PACKETINFO a) empty_pkt"
    by (simp add: into_empty_def PACKETINFO_def)
  with fa(2,3) have "getFileSize name (srv # srvs) (Got (take PACKETINFO a) # rs) = ([(srv, take PACKETINFO q)], Value ?len)"
    unfolding getFileSize_def by (simp add: rep q)
  moreover have "sendFileSize fs (blit 0 (take PACKETINFO q) empty_pkt) = Srv_sent (take PACKETINFO a)"
    unfolding sendFileSize_def fq(5) using assms(3) len fa(1) by (simp add: to_int_small a send_block_def)
  then have "lab3_server fs openable [port] (Some (take PACKETINFO q) # d # later) = [Srv_sent (take PACKETINFO a), Srv_undefined]"
    using fq(2) ne by (simp add: lab3_server_def lab3_turn_def Let_def)
  ultimately show "\<exists>query answer. getFileSize name (srv # srvs) (Got answer # rs) = ([(srv, query)], Value ?len) \<and>
      lab3_server fs openable [port] (Some query # d # later) = [Srv_sent answer, Srv_undefined]" by blast
next
  have b: "0 \<le> n" "n \<le> 2147483647" "start \<le> 2147483647" using assms(4-7) by simp_all
  obtain c where c: "revised_pkt request_chunkcontent n start name None = Some c"
    using revised_pkt_fields [OF assms(1,2) b(1)] by blast
  note fc = received_fields [OF assms(1,2) b(1,2) assms(6) b(3) c]
  have ne: "take PACKETINFO c \<noteq> []" using fc(1) by (auto simp: PACKETINFO_def)
  have "drop (nat start) content \<noteq> []" using assms(5-7) by simp
  then have "\<not> fgets_into_null n (drop (nat start) content)" using assms(5) by (simp add: fgets_into_null_def)
  then have "sendChunkContent fs openable (blit 0 (take PACKETINFO c) empty_pkt) = Srv_undefined"
    unfolding sendChunkContent_def fc(3-5) using assms(3,8) by (simp split: option.split)
  then show "\<exists>chunk. revised_pkt request_chunkcontent n start name None = Some chunk \<and>
      lab3_server fs openable [port] (Some (take PACKETINFO chunk) # later) = [Srv_undefined]"
    using fc(2) ne c by (simp add: lab3_server_def lab3_turn_def Let_def)
qed

theorem lab3_one_size_query_witness:
  "(\<exists>query answer. getFileSize ''file.txt'' [1 :: nat] [Got answer] = ([(1, query)], Value 5) \<and>
      lab3_server [''file.txt'' \<mapsto> ''hello''] (\<lambda>_. True) [''4321''] [Some query, None] = [Srv_sent answer, Srv_undefined]) \<and>
    (\<exists>chunk. revised_pkt request_chunkcontent 2 3 ''file.txt'' None = Some chunk \<and>
      lab3_server [''file.txt'' \<mapsto> ''hello''] (\<lambda>_. True) [''4321''] [Some (take PACKETINFO chunk)] = [Srv_undefined])"
proof -
  let ?fs = "[''file.txt'' \<mapsto> ''hello'']" and ?all = "\<lambda>_ :: string. True"
  have n: "NUL \<notin> set ''file.txt''" by (simp add: NUL_def)
  show ?thesis
    using lab3_one_size_query [OF n, of ?fs "''hello''" 2 3 ?all "1 :: nat" "[]" "[]" "''4321''" None "[]"] by simp
qed

end
