(* ===== verification/ClientList.thy ===== *)
theory ClientList
  imports Roster CText
begin

text \<open>
  The linked list of waiting clients of the archived chat server,
  \<open>archive/chat/src/clientlist.c\<close>, with its mutex. The nodes and the strings they point to live
  in a store that maps addresses to contents; a freed address maps to nothing, and reading
  it is undefined. Loops that follow \<open>next\<close> pointers are partial functions: on a broken or
  cyclic list they have no result.
\<close>

section \<open>The store\<close>

record cnode =
  nd_id :: nat
  nd_ip :: nat
  nd_port :: int
  nd_next :: "nat option"

text \<open>\<open>brk\<close> is the first address that \<open>malloc\<close> has not handed out; \<open>NULL\<close> is \<open>None\<close>.\<close>

record cl_state =
  nodes :: "nat \<rightharpoonup> cnode"
  strings :: "nat \<rightharpoonup> string"
  brk :: nat
  top :: "nat option"
  numClients :: int
  locked :: bool

text \<open>How a call ends: it returns, waits for a mutex that nobody releases, ends the process, or is undefined.\<close>

datatype 'a outcome = Ret 'a | Blocks | Exits | Undef

definition MAX_ID_LENGTH :: nat where
  "MAX_ID_LENGTH = 32"

definition MAX_MSG_LENGTH :: nat where
  "MAX_MSG_LENGTH = 1024"

definition newClientList :: "cl_state \<Rightarrow> cl_state" where
  "newClientList s = s\<lparr>top := None, numClients := 0\<rparr>"

definition isEmpty :: "cl_state \<Rightarrow> bool" where
  "isEmpty s \<longleftrightarrow> numClients s = 0"

text \<open>\<open>newNode\<close>: the new node and its address.\<close>

definition newNode :: "nat \<Rightarrow> nat \<Rightarrow> int \<Rightarrow> cl_state \<Rightarrow> cl_state \<times> nat" where
  "newNode i p port s =
     (s\<lparr>nodes := (nodes s)(brk s \<mapsto> \<lparr>nd_id = i, nd_ip = p, nd_port = port, nd_next = None\<rparr>), brk := Suc (brk s)\<rparr>, brk s)"

definition freeNode :: "nat \<Rightarrow> cl_state \<Rightarrow> cl_state" where
  "freeNode a s = s\<lparr>nodes := (nodes s)(a := None)\<rparr>"

section \<open>Operations\<close>

partial_function (option) lookup_loop ::
  "(nat \<rightharpoonup> cnode) \<Rightarrow> (nat \<rightharpoonup> string) \<Rightarrow> string \<Rightarrow> nat option \<Rightarrow> nat option option" where
  "lookup_loop h st i p =
     (if p = None then Some None
      else Option.bind (h (the p)) (\<lambda>n.
        Option.bind (st (nd_id n)) (\<lambda>t.
          if i = t then Some (Some (nd_id n)) else lookup_loop h st i (nd_next n))))"

definition lookup :: "string \<Rightarrow> cl_state \<Rightarrow> nat option option" where
  "lookup i s = lookup_loop (nodes s) (strings s) i (top s)"

text \<open>The last node of a list that starts with the node at \<open>a\<close>.\<close>

partial_function (option) last_node :: "(nat \<rightharpoonup> cnode) \<Rightarrow> nat \<Rightarrow> nat option" where
  "last_node h a =
     Option.bind (h a) (\<lambda>n. if nd_next n = None then Some a else last_node h (the (nd_next n)))"

text \<open>
  \<open>insertToList\<close> with the address of the id and of the ip. The branch for an id that is
  already in the list returns without unlocking the mutex. At \<open>INT_MAX\<close> clients the counter overflows.
\<close>

definition insertToList :: "nat \<Rightarrow> nat \<Rightarrow> int \<Rightarrow> cl_state \<Rightarrow> (cl_state \<times> int) outcome" where
  "insertToList i p port s =
     (if locked s then Blocks
      else case strings s i of
        None \<Rightarrow> Undef
      | Some t \<Rightarrow>
          (case lookup t s of
             None \<Rightarrow> Undef
           | Some (Some _) \<Rightarrow> Ret (s\<lparr>locked := True\<rparr>, - 1)
           | Some None \<Rightarrow>
               if numClients s = INT_MAX then Undef
               else (case top s of
                  None \<Rightarrow>
                    (let (s1, a) = newNode i p port s
                     in Ret (s1\<lparr>top := Some a, numClients := numClients s + 1\<rparr>, 1))
                | Some b \<Rightarrow>
                    (case last_node (nodes s) b of
                       None \<Rightarrow> Undef
                     | Some l \<Rightarrow>
                         (let (s1, a) = newNode i p port s
                          in Ret (s1\<lparr>nodes := (nodes s1)(l \<mapsto> (the (nodes s l))\<lparr>nd_next := Some a\<rparr>),
                                     numClients := numClients s + 1\<rparr>, 1))))))"

text \<open>The loop that unlinks the first node behind \<open>a\<close> with the given id.\<close>

partial_function (option) unlink_loop ::
  "(nat \<rightharpoonup> cnode) \<Rightarrow> (nat \<rightharpoonup> string) \<Rightarrow> string \<Rightarrow> nat \<Rightarrow> (nat \<rightharpoonup> cnode) option" where
  "unlink_loop h st i a =
     Option.bind (h a) (\<lambda>n.
       if nd_next n = None then Some h
       else let b = the (nd_next n)
         in Option.bind (h b) (\<lambda>k.
              Option.bind (st (nd_id k)) (\<lambda>t.
                if t = i then Some ((h(a \<mapsto> n\<lparr>nd_next := nd_next k\<rparr>))(b := None))
                else unlink_loop h st i b)))"

definition removeFromList :: "string \<Rightarrow> cl_state \<Rightarrow> cl_state outcome" where
  "removeFromList i s =
     (if locked s then Blocks
      else case lookup i s of
        None \<Rightarrow> Undef
      | Some None \<Rightarrow> Exits
      | Some (Some _) \<Rightarrow>
          (case top s of
             None \<Rightarrow> Undef
           | Some a \<Rightarrow>
               (case nodes s a of
                  None \<Rightarrow> Undef
                | Some n \<Rightarrow>
                    (case strings s (nd_id n) of
                       None \<Rightarrow> Undef
                     | Some t \<Rightarrow>
                         if t = i
                         then Ret (freeNode a (s\<lparr>top := nd_next n, numClients := numClients s - 1\<rparr>))
                         else (case unlink_loop (nodes s) (strings s) i a of
                                 None \<Rightarrow> Undef
                               | Some h \<Rightarrow> Ret (s\<lparr>nodes := h, numClients := numClients s - 1\<rparr>))))))"

text \<open>\<open>makeEmpty\<close>: an empty list ends the process, otherwise node after node is freed.\<close>

fun free_nodes :: "nat \<Rightarrow> cl_state \<Rightarrow> cl_state option" where
  "free_nodes 0 s = Some s"
| "free_nodes (Suc k) s =
     (case top s of
        None \<Rightarrow> None
      | Some a \<Rightarrow>
          (case nodes s a of
             None \<Rightarrow> None
           | Some n \<Rightarrow> free_nodes k (freeNode a (s\<lparr>top := nd_next n, numClients := numClients s - 1\<rparr>))))"

definition makeEmpty :: "cl_state \<Rightarrow> cl_state outcome" where
  "makeEmpty s =
     (if isEmpty s then Exits
      else case free_nodes (nat (numClients s)) s of None \<Rightarrow> Undef | Some s' \<Rightarrow> Ret s')"

text \<open>\<open>freeClientList\<close>: the flag says that the handle is not \<open>NULL\<close>, before and after the call.\<close>

definition freeClientList :: "bool \<Rightarrow> cl_state \<Rightarrow> (cl_state \<times> bool) outcome" where
  "freeClientList present s =
     (if \<not> present then Ret (s, False)
      else if isEmpty s then Ret (s, False)
      else case makeEmpty s of Ret s' \<Rightarrow> Ret (s', False) | Blocks \<Rightarrow> Blocks | Exits \<Rightarrow> Exits | Undef \<Rightarrow> Undef)"

definition clsize :: "cl_state \<Rightarrow> int" where
  "clsize s = numClients s"

text \<open>
  \<open>sendClientList\<close>: one block of 32 bytes per client and a newline; \<open>sent\<close> holds the results
  of the \<open>send\<close> calls. The return value and what was sent. A longer id overflows the buffer.
\<close>

partial_function (option) send_ids ::
  "(nat \<rightharpoonup> cnode) \<Rightarrow> (nat \<rightharpoonup> string) \<Rightarrow> nat option \<Rightarrow> bool list \<Rightarrow> (int \<times> bytes) option" where
  "send_ids h st p sent =
     (if sent = [] then None
      else if p = None then Some (if hd sent then (1, [CHR ''\<newline>'']) else (- 1, []))
      else Option.bind (h (the p)) (\<lambda>n.
        Option.bind (st (nd_id n)) (\<lambda>t.
          if MAX_ID_LENGTH \<le> length t then None
          else if \<not> hd sent then Some (- 1, [])
          else Option.bind (send_ids h st (nd_next n) (tl sent)) (\<lambda>r. Some (fst r, zeroed MAX_ID_LENGTH t @ snd r)))))"

definition sendClientList :: "bool list \<Rightarrow> cl_state \<Rightarrow> (int \<times> bytes) outcome" where
  "sendClientList sent s =
     (if locked s then Blocks
      else case send_ids (nodes s) (strings s) (top s) sent of None \<Rightarrow> Undef | Some r \<Rightarrow> Ret r)"

text \<open>
  \<open>sendClientInfo\<close>: for a client in the list the \<open>int\<close> port is printed with \<open>%s\<close>, which is
  undefined; for an unknown one DNE is sent and the call returns \<open>-1\<close>.
\<close>

definition sendClientInfo :: "bool \<Rightarrow> string \<Rightarrow> cl_state \<Rightarrow> (int \<times> bytes) outcome" where
  "sendClientInfo sent_ok i s =
     (if locked s then Blocks
      else case lookup i s of
        None \<Rightarrow> Undef
      | Some (Some _) \<Rightarrow> Undef
      | Some None \<Rightarrow> Ret (- 1, if sent_ok then zeroed MAX_MSG_LENGTH ''DNE'' else []))"

section \<open>The list in the store\<close>

text \<open>The addresses of the nodes reached from a pointer, in order.\<close>

primrec chain :: "(nat \<rightharpoonup> cnode) \<Rightarrow> nat option \<Rightarrow> nat list \<Rightarrow> bool" where
  "chain h p [] \<longleftrightarrow> p = None"
| "chain h p (a # as) \<longleftrightarrow> p = Some a \<and> (\<exists>n. h a = Some n \<and> chain h (nd_next n) as)"

definition id_at :: "cl_state \<Rightarrow> nat \<Rightarrow> string" where
  "id_at s a = the (strings s (nd_id (the (nodes s a))))"

fun walk :: "(nat \<rightharpoonup> cnode) \<Rightarrow> nat \<Rightarrow> nat option \<Rightarrow> nat list" where
  "walk h k None = []"
| "walk h 0 (Some a) = []"
| "walk h (Suc k) (Some a) = (case h a of None \<Rightarrow> [] | Some n \<Rightarrow> a # walk h k (nd_next n))"

definition addresses :: "cl_state \<Rightarrow> nat list" where
  "addresses s = walk (nodes s) (nat (numClients s)) (top s)"

definition list_ids :: "cl_state \<Rightarrow> string list" where
  "list_ids s = map (id_at s) (addresses s)"

definition list_ok :: "cl_state \<Rightarrow> bool" where
  "list_ok s \<longleftrightarrow> chain (nodes s) (top s) (addresses s) \<and> distinct (addresses s) \<and>
     numClients s = int (length (addresses s)) \<and> numClients s \<le> INT_MAX \<and> \<not> locked s \<and>
     (\<forall>a \<in> set (addresses s). strings s (nd_id (the (nodes s a))) \<noteq> None) \<and>
     (\<forall>a \<in> dom (nodes s) \<union> dom (strings s). a < brk s) \<and> distinct (list_ids s)"

lemma chain_dom: "chain h p as \<Longrightarrow> set as \<subseteq> dom h"
  by (induction as arbitrary: p) auto

lemma chain_cong: "(\<And>a. a \<in> set as \<Longrightarrow> g a = h a) \<Longrightarrow> chain g p as = chain h p as"
  by (induction as arbitrary: p) auto

lemma chain_free: "b \<notin> set as \<Longrightarrow> chain (h(b := None)) p as = chain h p as"
  by (rule chain_cong) auto

lemma chain_walk: "chain h p as \<Longrightarrow> length as = k \<Longrightarrow> walk h k p = as"
  by (induction as arbitrary: p k) auto

lemma chain_snoc:
  assumes "chain h p as" and "as \<noteq> []" and "distinct as" and "b \<notin> set as" and "nd_next n = None"
  shows "chain (h(b \<mapsto> n, last as \<mapsto> (the (h (last as)))\<lparr>nd_next := Some b\<rparr>)) p (as @ [b])"
  using assms
proof (induction as arbitrary: p)
  case (Cons a as)
  then obtain k where k: "p = Some a" "h a = Some k" "chain h (nd_next k) as" by auto
  show ?case
  proof (cases "as = []")
    case True
    with k Cons.prems show ?thesis by auto
  next
    case False
    with Cons k show ?thesis by auto
  qed
qed simp

text \<open>The store after the node at \<open>b\<close> has been taken out behind the node at \<open>l\<close> and freed.\<close>

definition unlinked :: "(nat \<rightharpoonup> cnode) \<Rightarrow> nat \<Rightarrow> nat \<Rightarrow> nat \<rightharpoonup> cnode" where
  "unlinked h l b = h(l \<mapsto> (the (h l))\<lparr>nd_next := nd_next (the (h b))\<rparr>, b := None)"

lemma unlinked_simps [simp]: "c \<noteq> l \<Longrightarrow> c \<noteq> b \<Longrightarrow> unlinked h l b c = h c"
  "l \<noteq> b \<Longrightarrow> unlinked h l b l = Some ((the (h l))\<lparr>nd_next := nd_next (the (h b))\<rparr>)" "unlinked h l b b = None"
  by (simp_all add: unlinked_def)

lemma chain_unlink:
  assumes "chain h p (us @ b # ys)" and "us \<noteq> []" and "distinct (us @ b # ys)"
  shows "chain (unlinked h (last us) b) p (us @ ys)"
  using assms
proof (induction us arbitrary: p)
  case (Cons a us)
  then obtain k where k: "p = Some a" "h a = Some k" "chain h (nd_next k) (us @ b # ys)" by auto
  show ?case
  proof (cases "us = []")
    case True
    have "chain (unlinked h a b) (nd_next (the (h b))) ys = chain h (nd_next (the (h b))) ys"
      using Cons.prems(3) True by (intro chain_cong unlinked_simps(1)) auto
    with True k Cons.prems(3) show ?thesis by auto
  next
    case False
    then have "last us \<in> set us" by simp
    with Cons.prems(3) have "unlinked h (last us) b a = h a" by (intro unlinked_simps(1)) auto
    with False Cons k show ?thesis by simp
  qed
qed simp

lemma unlink_loop_chain:
  assumes "chain h (Some a) (a # xs @ b # ys)"
    and "\<forall>c \<in> insert b (set xs). st (nd_id (the (h c))) \<noteq> None"
    and "\<forall>c \<in> set xs. the (st (nd_id (the (h c)))) \<noteq> i" and "the (st (nd_id (the (h b)))) = i"
  shows "unlink_loop h st i a = Some (unlinked h (last (a # xs)) b)"
  using assms
proof (induction xs arbitrary: a)
  case Nil
  then show ?case by (subst unlink_loop.simps) (auto simp: Let_def unlinked_def)
next
  case (Cons x xs)
  then obtain n k where n: "h a = Some n" "nd_next n = Some x" "h x = Some k" "chain h (nd_next k) (xs @ b # ys)" by auto
  have "chain h (Some x) (x # xs @ b # ys)" using n by simp
  from Cons.IH [OF this] Cons.prems n show ?case by (subst unlink_loop.simps) (auto simp: Let_def)
qed

lemma lookup_loop_chain:
  assumes "chain h p as" and "\<forall>a \<in> set as. st (nd_id (the (h a))) \<noteq> None"
  shows "\<exists>r. lookup_loop h st i p = Some r \<and> (r = None \<longleftrightarrow> i \<notin> (\<lambda>a. the (st (nd_id (the (h a))))) ` set as)"
  using assms
proof (induction as arbitrary: p)
  case Nil
  then show ?case by (subst lookup_loop.simps) simp
next
  case (Cons a as)
  then obtain n where n: "p = Some a" "h a = Some n" "chain h (nd_next n) as" by auto
  obtain t where t: "st (nd_id n) = Some t" using Cons.prems(2) n(2) by auto
  from Cons.IH [OF n(3)] Cons.prems(2) obtain r where
    "lookup_loop h st i (nd_next n) = Some r" "r = None \<longleftrightarrow> i \<notin> (\<lambda>a. the (st (nd_id (the (h a))))) ` set as" by auto
  with n t show ?case by (subst lookup_loop.simps) auto
qed

lemma last_node_end: "h a = Some n \<Longrightarrow> nd_next n = None \<Longrightarrow> last_node h a = Some a"
  by (subst last_node.simps) simp

lemma last_node_next:
  assumes "h a = Some n" and "nd_next n = Some c"
  shows "last_node h a = last_node h c"
  using assms by (subst last_node.simps) simp

lemma last_node_chain: "chain h (Some a) as \<Longrightarrow> last_node h a = Some (last as)"
proof (induction as arbitrary: a)
  case (Cons b as)
  from Cons.prems have "b = a" by simp
  from Cons.prems obtain n where n: "h a = Some n" "chain h (nd_next n) as" unfolding chain.simps \<open>b = a\<close> by blast
  show ?case
  proof (cases as)
    case Nil
    with n \<open>b = a\<close> show ?thesis by (simp add: last_node_end)
  next
    case c_cs: (Cons c cs)
    with n have c: "nd_next n = Some c" by simp
    from Cons.IH [of c] n(2) c have "last_node h c = Some (last as)" by simp
    with last_node_next [of h a, OF n(1) c] c_cs show ?thesis by simp
  qed
qed simp

section \<open>The operations on the list\<close>

lemma list_okD:
  assumes "list_ok s"
  shows "chain (nodes s) (top s) (addresses s)" "distinct (addresses s)" "numClients s = int (length (addresses s))"
    "\<not> locked s" "\<forall>a \<in> set (addresses s). strings s (nd_id (the (nodes s a))) \<noteq> None" "\<forall>a \<in> dom (nodes s) \<union> dom (strings s). a < brk s"
    "distinct (list_ids s)" "int (length (addresses s)) \<le> INT_MAX"
  using assms by (simp_all add: list_ok_def)

lemma list_okI:
  assumes "chain (nodes s) (top s) as" "distinct as" "numClients s = int (length as)" "\<not> locked s"
    "\<forall>a \<in> set as. strings s (nd_id (the (nodes s a))) \<noteq> None" "\<forall>a \<in> dom (nodes s) \<union> dom (strings s). a < brk s"
    "distinct (map (id_at s) as)" "int (length as) \<le> INT_MAX"
  shows "list_ok s \<and> list_ids s = map (id_at s) as"
proof -
  have as: "addresses s = as" using chain_walk [OF assms(1)] assms(3) by (simp add: addresses_def)
  then show ?thesis using assms by (simp add: list_ok_def list_ids_def)
qed

lemma lookup_ok:
  assumes "list_ok s"
  shows "\<exists>r. lookup i s = Some r \<and> (r = None \<longleftrightarrow> i \<notin> set (list_ids s))"
  using lookup_loop_chain [OF list_okD(1,5) [OF assms], of i] by (simp add: lookup_def list_ids_def id_at_def)

text \<open>A new node behind the last one.\<close>

lemma list_ok_append:
  assumes ok: "list_ok s" and ne: "addresses s \<noteq> []" and i: "strings s (nd_id n) = Some t" and new: "t \<notin> set (list_ids s)"
    and room: "int (Suc (length (addresses s))) \<le> INT_MAX" and n: "nd_next n = None"
    and s': "s' = s\<lparr>nodes := (nodes s)(brk s \<mapsto> n, last (addresses s) \<mapsto> (the (nodes s (last (addresses s))))\<lparr>nd_next := Some (brk s)\<rparr>),
      brk := Suc (brk s), numClients := numClients s + 1\<rparr>"
  shows "list_ok s' \<and> list_ids s' = list_ids s @ [t]"
proof -
  note l = list_okD [OF ok]
  let ?b = "brk s" and ?as = "addresses s"
  have b: "?b \<notin> dom (nodes s)" "?b \<notin> set ?as" using l(6) chain_dom [OF l(1)] by auto
  have ll: "last ?as \<in> set ?as" using ne by (rule last_in_set)
  then have lb: "last ?as \<noteq> ?b" using b(2) by metis
  have same: "nd_id (the (nodes s' c)) = nd_id (the (nodes s c))" if "c \<in> set ?as" for c using that b(2) s' by auto
  have idb: "nd_id (the (nodes s' ?b)) = nd_id n" using lb s' by simp
  have ids: "map (id_at s') (?as @ [?b]) = list_ids s @ [t]" using same idb i s' by (simp add: list_ids_def id_at_def)
  have "list_ok s' \<and> list_ids s' = map (id_at s') (?as @ [?b])"
  proof (rule list_okI, goal_cases)
    case 1
    show ?case using chain_snoc [OF l(1) ne l(2) b(2) n] s' by simp
  next
    case 5
    show ?case using l(5) same idb i s' by simp
  next
    case 6
    have "dom (nodes s') = insert ?b (dom (nodes s))" using ll chain_dom [OF l(1)] s' by auto
    with l(6) s' show ?case by (auto simp: less_Suc_eq)
  next
    case 7
    show ?case unfolding ids using l(7) new by simp
  qed (use l b room s' in simp_all)
  then show ?thesis using ids by simp
qed

lemma insert_ok:
  assumes ok: "list_ok s" and i: "strings s i = Some t" and new: "t \<notin> set (list_ids s)"
    and room: "int (length (list_ids s)) < INT_MAX"
  shows "\<exists>s'. insertToList i p port s = Ret (s', 1) \<and> list_ok s' \<and> list_ids s' = list_ids s @ [t] \<and> strings s' = strings s"
proof -
  note l = list_okD [OF ok]
  have nc: "numClients s \<noteq> INT_MAX" "int (Suc (length (addresses s))) \<le> INT_MAX" using room l(3) by (simp_all add: list_ids_def)
  let ?n = "\<lparr>nd_id = i, nd_ip = p, nd_port = port, nd_next = None\<rparr>" and ?b = "brk s" and ?as = "addresses s"
  have look: "lookup t s = Some None" using lookup_ok [OF ok, of t] new by auto
  show ?thesis
  proof (cases "top s")
    case None
    then have as: "?as = []" using l(1) by (cases ?as) auto
    let ?s' = "s\<lparr>nodes := (nodes s)(?b \<mapsto> ?n), brk := Suc ?b, top := Some ?b, numClients := numClients s + 1\<rparr>"
    have "list_ok ?s' \<and> list_ids ?s' = map (id_at ?s') [?b]"
      using l as i nc(2) by (intro list_okI) (auto simp: less_Suc_eq)
    moreover have "insertToList i p port s = Ret (?s', 1)"
      using i look l(4) None nc(1) by (simp add: insertToList_def newNode_def)
    ultimately show ?thesis using i as by (simp add: id_at_def list_ids_def)
  next
    case (Some a)
    then have ne: "?as \<noteq> []" using l(1) by auto
    let ?l = "last ?as"
    let ?s' = "s\<lparr>nodes := (nodes s)(?b \<mapsto> ?n, ?l \<mapsto> (the (nodes s ?l))\<lparr>nd_next := Some ?b\<rparr>), brk := Suc ?b,
       numClients := numClients s + 1\<rparr>"
    have "last_node (nodes s) a = Some ?l" using last_node_chain [of "nodes s" a ?as] l(1) Some by simp
    then have "insertToList i p port s = Ret (?s', 1)"
      using i look l(4) Some nc(1) by (simp add: insertToList_def newNode_def Let_def)
    then show ?thesis using list_ok_append [OF ok ne _ new nc(2), of ?n] i by simp
  qed
qed

text \<open>Where the id of a client stands in the list, and the nodes before and behind it.\<close>

lemma split_at_id:
  assumes "i \<in> set (list_ids s)"
  obtains xs b ys where "addresses s = xs @ b # ys" "id_at s b = i" "i \<notin> set (map (id_at s) xs)"
    "remove1 i (list_ids s) = map (id_at s) (xs @ ys)"
proof -
  have "\<exists>c \<in> set (addresses s). id_at s c = i" using assms by (auto simp: list_ids_def)
  from split_list_first_prop [OF this] obtain xs b ys where
    s: "addresses s = xs @ b # ys" "id_at s b = i" "\<forall>c \<in> set xs. id_at s c \<noteq> i" by blast
  then have "i \<notin> set (map (id_at s) xs)" by auto
  with s that show thesis by (simp add: list_ids_def remove1_append)
qed

lemma id_at_unlinked:
  assumes "c \<noteq> b"
  shows "id_at (s\<lparr>nodes := unlinked (nodes s) l b, numClients := k\<rparr>) c = id_at s c"
  using assms by (cases "c = l") (simp_all add: id_at_def)

text \<open>A node taken out behind another one.\<close>

lemma list_ok_unlink:
  assumes ok: "list_ok s" and as: "addresses s = xs @ b # ys" and ne: "xs \<noteq> []"
    and s': "s' = s\<lparr>nodes := unlinked (nodes s) (last xs) b, numClients := numClients s - 1\<rparr>"
  shows "list_ok s' \<and> list_ids s' = map (id_at s) (xs @ ys)"
proof -
  note l = list_okD [OF ok]
  have dxy: "distinct (xs @ b # ys)" using l(2) as by simp
  have nb: "c \<noteq> b" if "c \<in> set (xs @ ys)" for c using that dxy by auto
  have "set xs \<subseteq> dom (nodes s)" using chain_dom [OF l(1)] as by simp
  then have "last xs \<in> dom (nodes s)" using last_in_set [OF ne] by (rule subsetD)
  then have dom: "dom (unlinked (nodes s) (last xs) b) \<subseteq> dom (nodes s)" by (auto simp: unlinked_def split: if_splits)
  have ids: "map (id_at s') (xs @ ys) = map (id_at s) (xs @ ys)"
    unfolding s' by (intro map_cong refl id_at_unlinked nb)
  have "list_ok s' \<and> list_ids s' = map (id_at s') (xs @ ys)"
  proof (rule list_okI, goal_cases)
    case 1
    show ?case using chain_unlink [of "nodes s" "top s" xs b ys] l(1) as ne dxy s' by simp
  next
    case 5
    have "nd_id (the (unlinked (nodes s) (last xs) b c)) = nd_id (the (nodes s c))" if "c \<in> set (xs @ ys)" for c
      using nb [OF that] by (cases "c = last xs") simp_all
    then show ?case using l(5) as s' by simp
  next
    case 6
    show ?case using dom l(6) s' by auto
  next
    case 7
    show ?case unfolding ids using l(7) as by (auto simp: list_ids_def)
  qed (use l as s' in simp_all)
  then show ?thesis using ids by simp
qed

text \<open>The first node taken out.\<close>

lemma list_ok_tail:
  assumes ok: "list_ok s" and as: "addresses s = b # ys" and n: "nodes s b = Some n"
    and s': "s' = freeNode b (s\<lparr>top := nd_next n, numClients := numClients s - 1\<rparr>)"
  shows "list_ok s' \<and> list_ids s' = map (id_at s) ys"
proof -
  note l = list_okD [OF ok]
  have b: "b \<notin> set ys" using l(2) as by simp
  have ids: "map (id_at s') ys = map (id_at s) ys" using b s' by (auto simp: id_at_def freeNode_def)
  have "chain (nodes s') (nd_next n) ys" using l(1) as n b s' by (simp add: freeNode_def chain_free)
  moreover have "distinct (map (id_at s') ys)" unfolding ids using l(7) as by (simp add: list_ids_def)
  ultimately have "list_ok s' \<and> list_ids s' = map (id_at s') ys"
    using l as b s' by (intro list_okI) (auto simp: freeNode_def)
  then show ?thesis using ids by simp
qed

lemma remove_ok:
  assumes ok: "list_ok s" and i: "i \<in> set (list_ids s)"
  shows "\<exists>s'. removeFromList i s = Ret s' \<and> list_ok s' \<and> list_ids s' = remove1 i (list_ids s) \<and> strings s' = strings s"
proof -
  note l = list_okD [OF ok]
  from i obtain xs b ys where s: "addresses s = xs @ b # ys" "id_at s b = i" "i \<notin> set (map (id_at s) xs)"
    "remove1 i (list_ids s) = map (id_at s) (xs @ ys)" by (rule split_at_id)
  obtain r where look: "lookup i s = Some (Some r)" using lookup_ok [OF ok, of i] i by auto
  have str: "\<forall>c \<in> set (xs @ b # ys). strings s (nd_id (the (nodes s c))) \<noteq> None" using l(5) s(1) by simp
  show ?thesis
  proof (cases xs)
    case Nil
    obtain n where n: "top s = Some b" "nodes s b = Some n" using l(1) s(1) Nil by auto
    have "removeFromList i s = Ret (freeNode b (s\<lparr>top := nd_next n, numClients := numClients s - 1\<rparr>))"
      using look l(4) n str s(2) by (auto simp: removeFromList_def id_at_def)
    then show ?thesis using list_ok_tail [OF ok _ n(2) refl, of ys] s(1,4) Nil by (simp add: freeNode_def)
  next
    case (Cons a zs)
    have top: "top s = Some a" using l(1) s(1) Cons by simp
    obtain n t where n: "nodes s a = Some n" "strings s (nd_id n) = Some t" using l(1) str s(1) Cons by auto
    have t: "t \<noteq> i" using s(3) n Cons by (auto simp: id_at_def)
    have zs: "\<forall>c \<in> set zs. the (strings s (nd_id (the (nodes s c)))) \<noteq> i" using s(3) Cons by (auto simp: id_at_def)
    have "unlink_loop (nodes s) (strings s) i a = Some (unlinked (nodes s) (last xs) b)"
      using unlink_loop_chain [of "nodes s" a zs b ys "strings s" i] l(1) top str s Cons zs by (auto simp: id_at_def)
    then have "removeFromList i s = Ret (s\<lparr>nodes := unlinked (nodes s) (last xs) b, numClients := numClients s - 1\<rparr>)"
      using look l(4) top n t by (simp add: removeFromList_def)
    then show ?thesis using list_ok_unlink [OF ok s(1) _ refl] s(4) Cons by simp
  qed
qed

text \<open>Freeing node after node.\<close>

lemma free_nodes_chain:
  assumes "chain (nodes s) (top s) as" and "distinct as"
  shows "free_nodes (length as) s =
    Some (s\<lparr>nodes := nodes s |` (- set as), top := None, numClients := numClients s - int (length as)\<rparr>)"
  using assms
proof (induction as arbitrary: s)
  case Nil
  then show ?case by (cases s) simp
next
  case (Cons a as)
  then obtain n where n: "top s = Some a" "nodes s a = Some n" "chain (nodes s) (nd_next n) as" by auto
  let ?s = "freeNode a (s\<lparr>top := nd_next n, numClients := numClients s - 1\<rparr>)"
  have "chain (nodes ?s) (top ?s) as" using n(3) Cons.prems(2) by (simp add: freeNode_def chain_free)
  moreover have "nodes ?s |` (- set as) = nodes s |` (- set (a # as))"
    by (auto simp: freeNode_def restrict_map_def)
  moreover have "free_nodes (length (a # as)) s = free_nodes (length as) ?s" using n by simp
  moreover have "numClients ?s - int (length as) = numClients s - int (length (a # as))" by (simp add: freeNode_def)
  moreover have "?s\<lparr>nodes := h, top := None, numClients := k\<rparr> = s\<lparr>nodes := h, top := None, numClients := k\<rparr>" for h k
    by (simp add: freeNode_def)
  ultimately show ?case using Cons.IH [of ?s] Cons.prems(2) by (metis distinct.simps(2))
qed

text \<open>The list without its nodes; everything else stays, the strings of the ids too.\<close>

definition without_nodes :: "cl_state \<Rightarrow> cl_state" where
  "without_nodes s = s\<lparr>nodes := nodes s |` (- set (addresses s)), top := None, numClients := 0\<rparr>"

lemma makeEmpty_ok:
  assumes ok: "list_ok s" and ne: "list_ids s \<noteq> []"
  shows "makeEmpty s = Ret (without_nodes s)"
  using free_nodes_chain [OF list_okD(1) list_okD(2), OF ok ok] list_okD(3) [OF ok] ne
  by (simp add: makeEmpty_def isEmpty_def list_ids_def without_nodes_def)

lemma without_nodes_ok:
  assumes ok: "list_ok s"
  shows "list_ok (without_nodes s) \<and> list_ids (without_nodes s) = map (id_at (without_nodes s)) []"
  using list_okD(4,6) [OF ok] by (intro list_okI) (auto simp: INT_MAX_def without_nodes_def)

section \<open>Clients that come and go\<close>

text \<open>A string in fresh memory, as the server's \<open>malloc\<close> and \<open>recv\<close> of an id leave it.\<close>

definition store_string :: "string \<Rightarrow> cl_state \<Rightarrow> cl_state" where
  "store_string t s = s\<lparr>strings := (strings s)(brk s \<mapsto> t), brk := Suc (brk s)\<rparr>"

lemma store_string_ok:
  assumes ok: "list_ok s"
  shows "list_ok (store_string t s) \<and> list_ids (store_string t s) = list_ids s"
proof -
  note l = list_okD [OF ok]
  let ?s' = "store_string t s"
  have fresh: "nd_id (the (nodes s a)) \<noteq> brk s" if "a \<in> set (addresses s)" for a using l(5,6) that by fastforce
  have ids: "map (id_at ?s') (addresses s) = list_ids s"
    using fresh by (auto simp: list_ids_def id_at_def store_string_def)
  have "list_ok ?s' \<and> list_ids ?s' = map (id_at ?s') (addresses s)"
    using l fresh ids by (intro list_okI) (auto simp: store_string_def less_Suc_eq)
  then show ?thesis using ids by simp
qed

datatype cl_op = Join string nat int | Leave string

fun cl_exec :: "cl_op \<Rightarrow> cl_state \<Rightarrow> cl_state outcome" where
  "cl_exec (Join t ip port) s =
     (case insertToList (brk s) ip port (store_string t s) of
        Ret (s', _) \<Rightarrow> Ret s' | Blocks \<Rightarrow> Blocks | Exits \<Rightarrow> Exits | Undef \<Rightarrow> Undef)"
| "cl_exec (Leave t) s = removeFromList t s"

fun cl_run :: "cl_op list \<Rightarrow> cl_state \<Rightarrow> cl_state outcome" where
  "cl_run [] s = Ret s"
| "cl_run (x # xs) s = (case cl_exec x s of Ret s' \<Rightarrow> cl_run xs s' | r \<Rightarrow> r)"

text \<open>The abstract list: the ids in the order of arrival.\<close>

fun spec_op :: "cl_op \<Rightarrow> string list \<Rightarrow> string list option" where
  "spec_op (Join t ip port) ids = (if t \<in> set ids then None else Some (ids @ [t]))"
| "spec_op (Leave t) ids = (if t \<in> set ids then Some (remove1 t ids) else None)"

fun spec_run :: "cl_op list \<Rightarrow> string list \<Rightarrow> string list option" where
  "spec_run [] ids = Some ids"
| "spec_run (x # xs) ids = (case spec_op x ids of None \<Rightarrow> None | Some ids' \<Rightarrow> spec_run xs ids')"

lemma cl_join_ok:
  assumes "list_ok s" and "t \<notin> set (list_ids s)" and "int (length (list_ids s)) < INT_MAX"
  shows "\<exists>s'. cl_exec (Join t ip port) s = Ret s' \<and> list_ok s' \<and> list_ids s' = list_ids s @ [t]"
proof -
  have "strings (store_string t s) (brk s) = Some t" by (simp add: store_string_def)
  from insert_ok [OF _ this, of ip port] store_string_ok [OF assms(1), of t] assms(2,3) show ?thesis by auto
qed

lemma spec_op_length: "spec_op x ids = Some ids' \<Longrightarrow> length ids' \<le> Suc (length ids)"
  by (cases x) (auto simp: length_remove1 split: if_splits)

lemma cl_exec_refines:
  assumes "list_ok s" and "spec_op x (list_ids s) = Some ids" and "int (length (list_ids s)) < INT_MAX"
  shows "\<exists>s'. cl_exec x s = Ret s' \<and> list_ok s' \<and> list_ids s' = ids"
proof (cases x)
  case (Join t ip port)
  then show ?thesis using cl_join_ok [OF assms(1), of t ip port] assms(2,3) by (auto split: if_splits)
next
  case (Leave t)
  then show ?thesis using remove_ok [OF assms(1), of t] assms(2) by (auto split: if_splits)
qed

lemma cl_run_refines:
  assumes "list_ok s" and "spec_run xs (list_ids s) = Some ids" and "int (length (list_ids s) + length xs) \<le> INT_MAX"
  shows "\<exists>s'. cl_run xs s = Ret s' \<and> list_ok s' \<and> list_ids s' = ids"
  using assms
proof (induction xs arbitrary: s)
  case (Cons x xs)
  then obtain ids' where ids': "spec_op x (list_ids s) = Some ids'" "spec_run xs ids' = Some ids" by (auto split: option.splits)
  with cl_exec_refines [OF Cons.prems(1)] Cons.prems(3) obtain s' where
    s': "cl_exec x s = Ret s'" "list_ok s'" "list_ids s' = ids'" by auto
  have "int (length ids' + length xs) \<le> INT_MAX" using spec_op_length [OF ids'(1)] Cons.prems(3) by simp
  with Cons.IH [of s'] s' ids' show ?case by simp
qed simp

text \<open>The list keeps the contract of the tables of clients; a failed call leaves it as it was.\<close>

definition after :: "cl_op \<Rightarrow> cl_state \<Rightarrow> cl_state" where
  "after x s = (case cl_exec x s of Ret s' \<Rightarrow> s' | _ \<Rightarrow> s)"

lemma after_join:
  assumes "list_ok s" and "length (list_ids s) < nat INT_MAX" and "t \<notin> set (list_ids s)"
  shows "list_ok (after (Join t ip port) s) \<and> list_ids (after (Join t ip port) s) = list_ids s @ [t]"
proof -
  have "int (length (list_ids s)) < INT_MAX" using assms(2) by simp
  from cl_join_ok [OF assms(1,3) this, of ip port] show ?thesis by (auto simp: after_def simp del: cl_exec.simps)
qed

lemma after_leave:
  assumes "list_ok s"
  shows "list_ok (after (Leave t) s) \<and> list_ids (after (Leave t) s) = remove1 t (list_ids s)"
proof (cases "t \<in> set (list_ids s)")
  case True
  then show ?thesis using remove_ok [OF assms, of t] by (auto simp: after_def)
next
  case False
  then have "removeFromList t s = Exits" using lookup_ok [OF assms, of t] list_okD(4) [OF assms] by (auto simp: removeFromList_def)
  then show ?thesis using False assms by (simp add: after_def remove1_idem)
qed

interpretation client_list: roster list_ok list_ids "nat INT_MAX" "\<lambda>(t, ip, port). after (Join t ip port)"
  fst "\<lambda>t. after (Leave t)"
proof (unfold_locales, goal_cases)
  case (1 s)
  then show ?case using list_okD(8) [OF 1] by (simp add: list_ids_def)
next
  case (2 s v)
  then show ?case using after_join [of s "fst v"] by (auto split: prod.splits)
next
  case (3 s v)
  then show ?case using after_join [of s "fst v"] by (auto split: prod.splits)
next
  case (4 s k)
  then show ?case using after_leave by simp
next
  case (5 s k)
  then show ?case using after_leave by simp
qed

text \<open>A client that comes and goes leaves the others on the list.\<close>

lemma join_then_leave:
  assumes "list_ok s" and "length (list_ids s) < nat INT_MAX" and "t \<notin> set (list_ids s)"
  shows "mset (list_ids (after (Leave t) (after (Join t ip port) s))) = mset (list_ids s)"
  using client_list.add_then_del [of s "(t, ip, port)"] assms by simp

section \<open>Properties\<close>

lemma newClientList_ok:
  assumes "nodes s = Map.empty" and "strings s = Map.empty" and "\<not> locked s"
  shows "list_ok (newClientList s) \<and> list_ids (newClientList s) = []"
  using assms list_okI [of "newClientList s" "[]"] by (simp add: newClientList_def INT_MAX_def)

text \<open>C12.
  The linked list refines a list of ids: any sequence of insertions and removals that the
  list of ids allows (no id twice, nobody removed who is not there) runs on the nodes in the
  store without an error, a blocked mutex or a read of freed memory, keeps the list well
  formed with the right count, and leaves exactly the ids of the abstract list in its order.
\<close>

theorem clientlist_refines_ids:
  assumes "nodes s = Map.empty" and "strings s = Map.empty" and "\<not> locked s"
    and "spec_run xs [] = Some ids" and "int (length xs) \<le> INT_MAX"
  shows "\<exists>s'. cl_run xs (newClientList s) = Ret s' \<and> list_ok s' \<and> list_ids s' = ids \<and> clsize s' = int (length ids)"
proof -
  note new = newClientList_ok [OF assms(1-3)]
  from cl_run_refines [of "newClientList s" xs ids] new assms(4,5) obtain s' where
    s': "cl_run xs (newClientList s) = Ret s'" "list_ok s'" "list_ids s' = ids" by auto
  moreover have "clsize s' = int (length ids)" using list_okD(3) [OF s'(2)] s'(3) by (auto simp: clsize_def list_ids_def)
  ultimately show ?thesis by blast
qed

definition cl_start :: cl_state where
  "cl_start = \<lparr>nodes = Map.empty, strings = Map.empty, brk = 0, top = None, numClients = 0, locked = False\<rparr>"

theorem clientlist_refines_ids_witness:
  "\<exists>s'. cl_run [Join ''ann'' 0 1, Join ''bob'' 0 2, Join ''cy'' 0 3, Leave ''bob''] (newClientList cl_start) = Ret s' \<and>
     list_ok s' \<and> list_ids s' = [''ann'', ''cy''] \<and> clsize s' = int (length [''ann'', ''cy''])"
  by (rule clientlist_refines_ids) (simp_all add: cl_start_def INT_MAX_def)

text \<open>C31.
  An insertion of an id that is already in the list returns with the mutex locked: from
  then on every insertion, removal, listing and query waits forever.
\<close>

theorem clientlist_collision_blocks:
  assumes "list_ok s" and "strings s i = Some t" and "t \<in> set (list_ids s)"
  shows "\<exists>s'. insertToList i ip port s = Ret (s', - 1) \<and> list_ids s' = list_ids s \<and>
     insertToList j q r s' = Blocks \<and> removeFromList k s' = Blocks \<and> sendClientList sent s' = Blocks \<and> sendClientInfo ok k s' = Blocks"
proof -
  obtain r where "lookup t s = Some (Some r)" using lookup_ok [OF assms(1), of t] assms(3) by auto
  then have "insertToList i ip port s = Ret (s\<lparr>locked := True\<rparr>, - 1)"
    using assms(2) list_okD(4) [OF assms(1)] by (simp add: insertToList_def)
  moreover have "list_ids (s\<lparr>locked := True\<rparr>) = list_ids s" by (simp add: list_ids_def addresses_def id_at_def)
  ultimately show ?thesis by (simp add: insertToList_def removeFromList_def sendClientList_def sendClientInfo_def)
qed

definition cl_ann :: cl_state where
  "cl_ann = \<lparr>nodes = [1 \<mapsto> \<lparr>nd_id = 0, nd_ip = 9, nd_port = 1, nd_next = None\<rparr>], strings = [0 \<mapsto> ''ann'', 2 \<mapsto> ''ann''],
     brk = 3, top = Some 1, numClients = 1, locked = False\<rparr>"

theorem clientlist_collision_blocks_witness:
  "\<exists>s'. insertToList 2 9 5 cl_ann = Ret (s', - 1) \<and> list_ids s' = list_ids cl_ann \<and>
     insertToList 0 9 5 s' = Blocks \<and> removeFromList ''ann'' s' = Blocks \<and> sendClientList [True] s' = Blocks \<and>
     sendClientInfo True ''ann'' s' = Blocks"
  by (rule clientlist_collision_blocks [of cl_ann 2 "''ann''"])
    (simp_all add: cl_ann_def list_ok_def list_ids_def addresses_def id_at_def INT_MAX_def)

text \<open>C15.
  Resetting a list. On a list with clients \<open>makeEmpty\<close> ends and frees every node of it and
  nothing else: the state differs only in that the nodes of the list are gone and the list
  is empty, and the id strings are still there. On an empty list it ends the process.
\<close>

theorem clientlist_makeEmpty_frees:
  assumes "list_ok s"
  shows "makeEmpty s =
      (if list_ids s = [] then Exits
       else Ret (s\<lparr>nodes := nodes s |` (- set (addresses s)), top := None, numClients := 0\<rparr>)) \<and>
    list_ok (s\<lparr>nodes := nodes s |` (- set (addresses s)), top := None, numClients := 0\<rparr>) \<and>
    list_ids (s\<lparr>nodes := nodes s |` (- set (addresses s)), top := None, numClients := 0\<rparr>) = []"
proof -
  have "makeEmpty s = Exits" if "list_ids s = []"
    using that list_okD(3) [OF assms] by (simp add: makeEmpty_def isEmpty_def list_ids_def)
  with makeEmpty_ok [OF assms] without_nodes_ok [OF assms] show ?thesis by (simp add: without_nodes_def)
qed

theorem clientlist_makeEmpty_frees_witness:
  "list_ids cl_ann \<noteq> [] \<and>
   makeEmpty cl_ann = Ret (cl_ann\<lparr>nodes := nodes cl_ann |` (- set (addresses cl_ann)), top := None, numClients := 0\<rparr>)"
proof -
  have "list_ok cl_ann" "list_ids cl_ann \<noteq> []"
    by (simp_all add: cl_ann_def list_ok_def list_ids_def addresses_def id_at_def INT_MAX_def)
  with clientlist_makeEmpty_frees [OF this(1)] show ?thesis by simp
qed

end
