(* ===== verification/OldChatServer.thy ===== *)
theory OldChatServer
  imports ClientList
begin

text \<open>
  The archived chat server, \<open>archive/chat/src/myserver.c\<close>, over the list of \<open>ClientList\<close>: the
  beginning of \<open>serverThread\<close>, one turn of its command loop, and \<open>main\<close>. The results of \<open>recv\<close>
  and \<open>send\<close> are arguments, as are the contents of buffers before they are filled.
\<close>

section \<open>A connection\<close>

text \<open>The id is an address in the store, the address text is in the buffer of \<open>inet_ntoa\<close>.\<close>

record cthread =
  ct_id :: nat
  ct_ipbuf :: nat
  ct_peer :: string
  ct_command :: bytes

text \<open>Memory that holds no terminated string cannot be read as one.\<close>

definition readable :: "bytes \<Rightarrow> string option" where
  "readable buf = (if terminated buf then Some (cstr buf) else None)"

text \<open>
  \<open>serverThread\<close> up to the loop: a failed \<open>recv\<close> closes the socket, whose peer then has no name.
\<close>

definition serverThread_start ::
  "bytes \<Rightarrow> bytes \<Rightarrow> nat \<Rightarrow> bytes option \<Rightarrow> string option \<Rightarrow> cl_state \<Rightarrow> (cthread \<times> cl_state) outcome" where
  "serverThread_start id_junk command_junk ipbuf got peer s =
     (case (got, peer) of
        (Some b, Some p) \<Rightarrow>
          if b = [] then Exits
          else Ret (\<lparr>ct_id = brk s, ct_ipbuf = ipbuf, ct_peer = p, ct_command = command_junk\<rparr>,
                    s\<lparr>strings := (strings s)(brk s := readable (blit 0 b id_junk)), brk := Suc (brk s)\<rparr>)
      | _ \<Rightarrow> Exits)"

text \<open>
  \<open>strtok\<close> with a blank from position \<open>i\<close> of a buffer: the token, where the next call goes on,
  and the buffer, in which the end of the token has been overwritten.
\<close>

definition strtok_at :: "bytes \<Rightarrow> nat \<Rightarrow> (string \<times> nat \<times> bytes) option" where
  "strtok_at buf i =
     (let s = cstr (drop i buf)
      in case strtok '' '' s of
        None \<Rightarrow> None
      | Some (t, _) \<Rightarrow>
          (let j = i + length (takeWhile (\<lambda>c. c = CHR '' '') s) + length t
           in Some (t, if buf ! j = NUL then j else Suc j, buf[j := NUL])))"

text \<open>What the client's commands do with the list; the bytes that are sent.\<close>

definition command_list :: "bool list \<Rightarrow> cl_state \<Rightarrow> (cl_state \<times> bytes) outcome" where
  "command_list sent s =
     (case sendClientList sent s of
        Ret (r, out) \<Rightarrow> if r < 0 then Exits else Ret (s, out)
      | Blocks \<Rightarrow> Blocks | Exits \<Rightarrow> Exits | Undef \<Rightarrow> Undef)"

definition command_wait :: "cthread \<Rightarrow> bytes \<Rightarrow> bytes option \<Rightarrow> cl_state \<Rightarrow> (cl_state \<times> bytes) outcome" where
  "command_wait t port_junk got s =
     (let port = (case got of None \<Rightarrow> port_junk | Some b \<Rightarrow> blit 0 b port_junk)
      in if \<not> terminated port then Undef
         else case insertToList (ct_id t) (ct_ipbuf t) (atoi (cstr port))
                (s\<lparr>strings := (strings s)(ct_ipbuf t \<mapsto> ct_peer t)\<rparr>) of
           Ret (s', r) \<Rightarrow> if r < 0 then Exits else Ret (s'\<lparr>strings := (strings s')(ct_id t := None)\<rparr>, [])
         | Blocks \<Rightarrow> Blocks | Exits \<Rightarrow> Exits | Undef \<Rightarrow> Undef)"

definition command_connect :: "string option \<Rightarrow> bool \<Rightarrow> cl_state \<Rightarrow> (cl_state \<times> bytes) outcome" where
  "command_connect connectid sent_ok s =
     (case connectid of
        None \<Rightarrow> if locked s then Blocks else if top s = None then Exits else Undef
      | Some i \<Rightarrow>
          (case sendClientInfo sent_ok i s of
             Ret (r, out) \<Rightarrow> if r < 0 then Exits else Ret (s, out)
           | Blocks \<Rightarrow> Blocks | Exits \<Rightarrow> Exits | Undef \<Rightarrow> Undef))"

text \<open>One turn of the loop: \<open>got\<close> is the command received, \<open>port_got\<close> what \<open>/wait\<close> receives next.\<close>

definition serverThread_turn ::
  "bytes \<Rightarrow> bytes \<Rightarrow> bytes option \<Rightarrow> bool list \<Rightarrow> cthread \<Rightarrow> cl_state \<Rightarrow> (cthread \<times> cl_state \<times> bytes) outcome" where
  "serverThread_turn got port_junk port_got sent t s =
     (let buf = blit 0 got (ct_command t)
      in if \<not> terminated buf then Undef
         else case strtok_at buf 0 of
           None \<Rightarrow> Undef
         | Some (token, i, buf1) \<Rightarrow>
             (let (buf2, res) =
                (if token = ''/list'' then (buf1, command_list sent s)
                 else if token = ''/wait'' then (buf1, command_wait t port_junk port_got s)
                 else if token = ''/connect'' then
                   (case strtok_at buf1 i of
                      None \<Rightarrow> (buf1, command_connect None (hd sent) s)
                    | Some (cid, _, buf') \<Rightarrow> (buf', command_connect (Some cid) (hd sent) s))
                 else (buf1, Ret (s, [])))
              in case res of
                   Ret (s', out) \<Rightarrow> Ret (t\<lparr>ct_command := buf2\<rparr>, s', out)
                 | Blocks \<Rightarrow> Blocks | Exits \<Rightarrow> Exits | Undef \<Rightarrow> Undef))"

text \<open>\<open>main\<close>: its exit status and how many connections it has handed to a thread by then.\<close>

definition old_chat_main :: "nat \<Rightarrow> bool \<Rightarrow> bool \<Rightarrow> bool \<Rightarrow> bool \<Rightarrow> bool \<Rightarrow> int \<times> nat" where
  "old_chat_main argc socket_ok bind_ok listen_ok accept_ok create_ok =
     (if argc \<noteq> 2 \<or> \<not> socket_ok \<or> \<not> bind_ok \<or> \<not> listen_ok then (1, 0)
      else if \<not> accept_ok then (1, 0)
      else if \<not> create_ok then (1, 0)
      else (0, 1))"

section \<open>Listing\<close>

text \<open>What \<open>/list\<close> sends for a list of ids.\<close>

definition listing :: "string list \<Rightarrow> bytes" where
  "listing ids = concat (map (zeroed MAX_ID_LENGTH) ids) @ [CHR ''\<newline>'']"

lemma send_ids_chain:
  assumes "chain h p as" and "\<forall>a \<in> set as. st (nd_id (the (h a))) \<noteq> None"
    and "\<forall>a \<in> set as. length (the (st (nd_id (the (h a))))) < MAX_ID_LENGTH"
  shows "send_ids h st p (replicate (Suc (length as)) True) = Some (1, listing (map (\<lambda>a. the (st (nd_id (the (h a))))) as))"
  using assms
proof (induction as arbitrary: p)
  case Nil
  then show ?case by (subst send_ids.simps) (simp add: listing_def)
next
  case (Cons a as)
  then obtain n t where n: "p = Some a" "h a = Some n" "chain h (nd_next n) as" "st (nd_id n) = Some t" by auto
  with Cons have "send_ids h st (nd_next n) (replicate (Suc (length as)) True) =
      Some (1, listing (map (\<lambda>a. the (st (nd_id (the (h a))))) as))" by simp
  with n Cons.prems(3) show ?case by (subst send_ids.simps) (simp add: listing_def)
qed

lemma sendClientList_ok:
  assumes "list_ok s" and "\<forall>i \<in> set (list_ids s). length i < MAX_ID_LENGTH"
  shows "sendClientList (replicate (Suc (length (list_ids s))) True) s = Ret (1, listing (list_ids s))"
proof -
  note l = list_okD [OF assms(1)]
  have ids: "(\<lambda>a. the (strings s (nd_id (the (nodes s a))))) = id_at s" by (simp add: id_at_def fun_eq_iff)
  have "\<forall>a \<in> set (addresses s). length (the (strings s (nd_id (the (nodes s a))))) < MAX_ID_LENGTH"
    using assms(2) by (auto simp: list_ids_def id_at_def)
  from send_ids_chain [OF l(1,5) this] show ?thesis
    using l(4) unfolding ids by (simp add: sendClientList_def list_ids_def del: replicate.simps)
qed

section \<open>A list whose first id has been freed\<close>

definition dangling :: "cl_state \<Rightarrow> bool" where
  "dangling s \<longleftrightarrow> (case top s of None \<Rightarrow> False | Some a \<Rightarrow>
     (case nodes s a of None \<Rightarrow> True | Some n \<Rightarrow> strings s (nd_id n) = None))"

lemma dangling_lookup: "dangling s \<Longrightarrow> lookup i s = None"
  unfolding lookup_def by (subst lookup_loop.simps) (auto simp: dangling_def split: option.splits)

lemma dangling_send: "dangling s \<Longrightarrow> send_ids (nodes s) (strings s) (top s) sent = None"
  by (subst send_ids.simps) (auto simp: dangling_def split: option.splits)

lemma dangling_commands:
  assumes "dangling s" and "\<not> locked s"
  shows "command_list sent s = Undef" "command_connect x ok s = Undef"
    "dangling (s\<lparr>strings := (strings s)(ct_ipbuf u \<mapsto> ct_peer u)\<rparr>) \<Longrightarrow> command_wait u junk got s = Undef"
proof -
  show "command_list sent s = Undef" using assms dangling_send by (simp add: command_list_def sendClientList_def)
  have "top s \<noteq> None" using assms(1) by (auto simp: dangling_def split: option.splits)
  then show "command_connect x ok s = Undef"
    using assms dangling_lookup by (simp add: command_connect_def sendClientInfo_def split: option.split)
  show "command_wait u junk got s = Undef" if d: "dangling (s\<lparr>strings := (strings s)(ct_ipbuf u \<mapsto> ct_peer u)\<rparr>)"
    using dangling_lookup [OF d] assms(2) by (simp add: command_wait_def insertToList_def Let_def split: option.split)
qed

lemma wait_on_empty_list:
  assumes ok: "list_ok s" and empty: "list_ids s = []" and i: "strings s (ct_id t) = Some i" and ne: "ct_ipbuf t \<noteq> ct_id t"
    and port: "terminated (blit 0 b junk)"
  shows "\<exists>s'. command_wait t junk (Some b) s = Ret (s', []) \<and> \<not> locked s' \<and> strings s' (ct_id t) = None \<and>
    (\<exists>a n. top s' = Some a \<and> nodes s' a = Some n \<and> nd_id n = ct_id t)"
proof -
  note l = list_okD [OF ok]
  let ?s = "s\<lparr>strings := (strings s)(ct_ipbuf t \<mapsto> ct_peer t)\<rparr>"
  have as: "addresses s = []" using empty by (simp add: list_ids_def)
  then have top: "top s = None" using l(1) by simp
  have "lookup i ?s = Some None" unfolding lookup_def using top by (subst lookup_loop.simps) simp
  moreover have "numClients s \<noteq> INT_MAX" using l(3) as by (simp add: INT_MAX_def)
  ultimately show ?thesis
    using i ne port l(4) top by (simp add: command_wait_def insertToList_def newNode_def Let_def)
qed

section \<open>Properties\<close>

text \<open>
  C29. The first successful \<open>/wait\<close> breaks the server: it frees the id it has just put into
  the list, so that from then on every \<open>/list\<close>, \<open>/wait\<close> and \<open>/connect\<close> of any client reads freed
  memory.
\<close>

theorem old_chat_wait_frees_listed_id:
  assumes "list_ok s" "list_ids s = []" "strings s (ct_id t) = Some i" "ct_ipbuf t \<noteq> ct_id t" "terminated (blit 0 b junk)"
  shows "\<exists>s'. command_wait t junk (Some b) s = Ret (s', []) \<and> (\<forall>sent. command_list sent s' = Undef) \<and>
    (\<forall>x ok. command_connect x ok s' = Undef) \<and>
    (\<forall>u junk' got. ct_ipbuf u \<noteq> ct_id t \<longrightarrow> command_wait u junk' got s' = Undef)"
proof -
  from wait_on_empty_list [OF assms] obtain s' a n where
    s': "command_wait t junk (Some b) s = Ret (s', [])" "\<not> locked s'" "strings s' (ct_id t) = None"
      "top s' = Some a" "nodes s' a = Some n" "nd_id n = ct_id t" by blast
  then have "dangling s'" by (simp add: dangling_def)
  moreover have "dangling (s'\<lparr>strings := (strings s')(ct_ipbuf u \<mapsto> ct_peer u)\<rparr>)" if "ct_ipbuf u \<noteq> ct_id t" for u
    using s' that by (simp add: dangling_def)
  ultimately show ?thesis using dangling_commands [of s'] s'(1,2) by blast
qed

definition one_thread :: cthread where
  "one_thread = \<lparr>ct_id = 0, ct_ipbuf = 1, ct_peer = ''127.0.0.1'', ct_command = []\<rparr>"

theorem old_chat_wait_frees_listed_id_witness:
  "\<exists>s'. command_wait one_thread (replicate 4 NUL) (Some ''80'') (cl_start\<lparr>strings := [0 \<mapsto> ''ann''], brk := 2\<rparr>) = Ret (s', []) \<and>
    (\<forall>sent. command_list sent s' = Undef) \<and> (\<forall>x ok. command_connect x ok s' = Undef) \<and>
    (\<forall>u junk' got. ct_ipbuf u \<noteq> ct_id one_thread \<longrightarrow> command_wait u junk' got s' = Undef)"
  by (rule old_chat_wait_frees_listed_id [where i = "''ann''"])
    (simp_all add: one_thread_def cl_start_def list_ok_def list_ids_def addresses_def INT_MAX_def terminated_def blit_def)

text \<open>
  A \<open>/connect\<close> to an id that is not in the list ends the server for everybody: the query
  answers DNE and reports failure, on which the thread exits the process.
\<close>

theorem old_chat_unknown_peer_exits:
  assumes "list_ok s" and "cid \<notin> set (list_ids s)" and "NUL \<notin> set cid" "cid \<noteq> []" "CHR '' '' \<notin> set cid" "length cid < 1014"
    and "length (ct_command t) = 1024"
  shows "serverThread_turn (''/connect '' @ cid @ [NUL]) junk got sent t s = Exits"
proof -
  let ?b = "blit 0 (''/connect '' @ cid @ [NUL]) (ct_command t)"
  let ?r = "drop (10 + length cid) (ct_command t)"
  have b: "?b = ''/connect '' @ cid @ NUL # ?r" by (simp add: blit_def numeral_eq_Suc)
  have c: "cstr ?b = ''/connect '' @ cid" unfolding b using assms(3) cstr_append_NUL [of "''/connect '' @ cid" ?r] by (simp add: NUL_def)
  have "strtok '' '' (''/connect'' @ CHR '' '' # cid) = Some (''/connect'', cid)" by (rule strtok_word(1)) auto
  then have first: "strtok_at ?b 0 = Some (''/connect'', 9, ''/connect'' @ NUL # cid @ NUL # ?r)"
    using c unfolding b by (simp add: strtok_at_def Let_def NUL_def)
  have "strtok '' '' cid = Some (cid, [])" using assms(4,5) by (intro strtok_word(2)) auto
  moreover have "takeWhile (\<lambda>c. c = CHR '' '') cid = []" using assms(4,5) by (cases cid) auto
  ultimately have second: "strtok_at (''/connect'' @ NUL # cid @ NUL # ?r) 9 =
      Some (cid, 9 + length cid, (''/connect'' @ NUL # cid @ NUL # ?r)[9 + length cid := NUL])"
    using assms(3) by (simp add: strtok_at_def Let_def nth_append)
  have "lookup cid s = Some None" using lookup_ok [OF assms(1), of cid] assms(2) by auto
  then have "command_connect (Some cid) (hd sent) s = Exits"
    using list_okD(4) [OF assms(1)] by (simp add: command_connect_def sendClientInfo_def)
  moreover have "terminated ?b" unfolding b by (simp add: terminated_def)
  ultimately show ?thesis using first second by (simp add: serverThread_turn_def Let_def)
qed

theorem old_chat_unknown_peer_exits_witness:
  "serverThread_turn (''/connect '' @ ''bob'' @ [NUL]) [] None [True]
     \<lparr>ct_id = 0, ct_ipbuf = 1, ct_peer = ''127.0.0.1'', ct_command = replicate 1024 NUL\<rparr> cl_ann = Exits"
  by (rule old_chat_unknown_peer_exits)
    (simp_all add: cl_ann_def list_ok_def list_ids_def addresses_def id_at_def INT_MAX_def NUL_def)

end
