(* ===== verification/OldChatClient.thy ===== *)
theory OldChatClient
  imports OldChatServer
begin

text \<open>
  The archived chat client, \<open>archive/chat/src/myclient.c\<close>: the signal handler, the commands and
  the threads behind them, and the one command \<open>main\<close> runs. The global pointer \<open>id\<close> is never
  assigned, so that every access through it is undefined. Socket calls are arguments.
\<close>

datatype omode = INFO | WAIT | CHAT

record socket_mode =
  clientMode :: omode
  infosockfd :: int
  waitsockfd :: int
  chatsockfd :: int

text \<open>\<open>handler\<close>: the state and the socket that is shut down; in CHAT mode it reads through \<open>id\<close>.\<close>

definition sigint_handler :: "socket_mode \<Rightarrow> (socket_mode \<times> int option) outcome" where
  "sigint_handler s =
     (case clientMode s of
        WAIT \<Rightarrow> Ret (s\<lparr>clientMode := INFO\<rparr>, Some (waitsockfd s))
      | CHAT \<Rightarrow> Undef
      | INFO \<Rightarrow> Ret (s\<lparr>clientMode := INFO\<rparr>, None))"

section \<open>Listing\<close>

text \<open>The loop over the results of \<open>recv\<close>; an empty one is the end of the connection or an error.\<close>

fun list_loop :: "bytes \<Rightarrow> bytes list \<Rightarrow> string list option" where
  "list_loop buffer [] = Some []"
| "list_loop buffer (r # rs) =
     (if r = [] then Some []
      else let b = blit 0 r buffer
        in if b ! 0 = CHR ''\<newline>'' then Some []
           else if \<not> terminated b then None
           else map_option ((#) (cstr b)) (list_loop (replicate MAX_ID_LENGTH NUL) rs))"

definition list_command :: bytes where
  "list_command = ''/list''"

definition getClientList :: "bytes \<Rightarrow> bool \<Rightarrow> bytes list \<Rightarrow> (int \<times> string list) outcome" where
  "getClientList junk send_ok recvs =
     (if \<not> send_ok then Ret (- 1, [])
      else case list_loop junk recvs of None \<Rightarrow> Undef | Some ids \<Rightarrow> Ret (1, ids))"

section \<open>Chatting and waiting\<close>

text \<open>\<open>chatThread\<close>: once the name of the peer has arrived, the own one is printed through \<open>id\<close>.\<close>

definition chatThread :: "bytes option \<Rightarrow> int outcome" where
  "chatThread request_id = (case request_id of None \<Rightarrow> Ret (- 1) | Some _ \<Rightarrow> Undef)"

datatype selected = Select_error | Select_timeout | Select_ready int

datatype wait_end = Still_waiting | Sent_remove | Wait_failed | Chatting int

text \<open>
  \<open>waitThread\<close>: the mode and the result of \<open>select\<close> in each turn. The argument is the address of
  the socket, its low bits are used as a descriptor, and \<open>FD_SET\<close> beyond 1023 is undefined.
\<close>

fun wait_loop :: "(omode \<times> selected) list \<Rightarrow> wait_end" where
  "wait_loop [] = Still_waiting"
| "wait_loop ((m, r) # rs) =
     (if m = INFO then Sent_remove
      else case r of
        Select_error \<Rightarrow> Wait_failed
      | Select_timeout \<Rightarrow> wait_loop rs
      | Select_ready fd \<Rightarrow> Chatting fd)"

definition waitThread :: "int \<Rightarrow> (omode \<times> selected) list \<Rightarrow> wait_end outcome" where
  "waitThread connfd turns =
     (if turns = [] then Ret Still_waiting
      else if connfd < 0 \<or> 1024 \<le> connfd then Undef
      else Ret (wait_loop turns))"

text \<open>
  \<open>joinWaitList\<close>: its return value (none on success), the bytes sent to the server and the
  modes. The command itself is not sent, only the number of the port.
\<close>

definition joinWaitList ::
  "int \<Rightarrow> bytes \<Rightarrow> int \<Rightarrow> bool \<Rightarrow> bool \<Rightarrow> nat option \<Rightarrow> bool \<Rightarrow> socket_mode \<Rightarrow> int \<times> bytes \<times> socket_mode" where
  "joinWaitList junk buffer sockfd bind_ok listen_ok sockname send_ok s =
     (if sockfd < 1 then (- 1, [], s)
      else if \<not> bind_ok then (- 1, [], s)
      else if \<not> listen_ok then (- 1, [], s)
      else case sockname of
        None \<Rightarrow> (- 1, [], s)
      | Some p \<Rightarrow>
          (if \<not> send_ok then (- 1, [], s)
           else (junk, blit 0 (show_nat p @ [NUL]) buffer, s\<lparr>clientMode := WAIT, waitsockfd := sockfd\<rparr>)))"

text \<open>
  \<open>connectClient\<close>: the answer of the server is only looked at when \<open>recv\<close> has failed, otherwise
  address and port stay as they were. \<open>p_buffer\<close> is what the answer's buffer holds after \<open>recv\<close>.
  A name that does not fit the command buffer overruns it; once connected, the own name is
  taken through \<open>id\<close>.
\<close>

record peer_env =
  p_recv :: "bytes option"
  p_buffer :: bytes
  p_ip :: string
  p_port :: int
  p_socket :: int
  p_inet_ok :: "string \<Rightarrow> bool"
  p_connects :: "string \<Rightarrow> int \<Rightarrow> bool"

definition scan_peer :: "peer_env \<Rightarrow> int \<times> string \<times> int" where
  "scan_peer e =
     (let t = cstr (p_buffer e); vs = sscanf_vals [Conv_s None, WS, Conv_d] t
      in (sscanf_ret [Conv_s None, WS, Conv_d] t,
          (case vs of SStr a # _ \<Rightarrow> a | _ \<Rightarrow> p_ip e),
          (case vs of [SStr _, SInt n] \<Rightarrow> n | _ \<Rightarrow> p_port e)))"

definition dial_peer :: "peer_env \<Rightarrow> string \<Rightarrow> int \<Rightarrow> socket_mode \<Rightarrow> (int option \<times> socket_mode) outcome" where
  "dial_peer e ip port s =
     (if p_socket e < 0 then Ret (Some (- 1), s)
      else if \<not> p_inet_ok e ip then Ret (Some (- 1), s)
      else if \<not> p_connects e ip port then Ret (Some (- 1), s)
      else Undef)"

definition connectClient :: "peer_env \<Rightarrow> bool \<Rightarrow> string option \<Rightarrow> socket_mode \<Rightarrow> (int option \<times> socket_mode) outcome" where
  "connectClient e send_ok connectToID s =
     (case connectToID of
        None \<Rightarrow> Undef
      | Some i \<Rightarrow>
          if MAX_ID_LENGTH + 9 \<le> length (''/connect '' @ i) then Undef
          else if \<not> send_ok then Ret (Some (- 1), s)
          else case p_recv e of
            Some _ \<Rightarrow> dial_peer e (p_ip e) (p_port e) s
          | None \<Rightarrow>
              if \<not> terminated (p_buffer e) then Undef
              else if cstr (p_buffer e) = ''DNE'' then Ret (Some 1, s)
              else (case scan_peer e of
                      (r, ip, port) \<Rightarrow> if r = - 1 then Ret (Some (- 1), s) else dial_peer e ip port s))"

section \<open>main\<close>

text \<open>Up to the prompt: the bytes of the id that are sent; \<open>id_arg\<close> is \<open>argv[3]\<close>.\<close>

definition old_client_start :: "nat \<Rightarrow> bool \<Rightarrow> bool \<Rightarrow> bool \<Rightarrow> string \<Rightarrow> bytes \<Rightarrow> bool \<Rightarrow> bytes outcome" where
  "old_client_start argc socket_ok inet_ok connects id_arg buffer send_ok =
     (if argc \<noteq> 4 \<or> \<not> socket_ok \<or> \<not> inet_ok \<or> \<not> connects then Exits
      else if MAX_ID_LENGTH \<le> length id_arg then Undef
      else if \<not> send_ok then Exits
      else Ret (blit 0 (id_arg @ [NUL]) buffer))"

datatype ocommand = No_command | Quit | List | Wait | Connect "string option"

text \<open>The one line that is read, and the command it selects.\<close>

definition old_client_command :: "string \<Rightarrow> ocommand" where
  "old_client_command cmd =
     (if cmd = [] \<or> hd cmd \<noteq> CHR ''/'' then No_command
      else case strtok '' '' cmd of
        None \<Rightarrow> No_command
      | Some (token, r) \<Rightarrow>
          (if token = ''/quit'' then Quit
           else if token = ''/list'' then List
           else if token = ''/wait'' then Wait
           else if token = ''/connect'' then Connect (map_option fst (strtok '' '' r))
           else No_command))"

section \<open>Lemmas\<close>

text \<open>A stream read in pieces of \<open>k\<close> bytes, all of which have arrived.\<close>

function full_reads :: "nat \<Rightarrow> bytes \<Rightarrow> bytes list" where
  "full_reads k b = (if b = [] \<or> k = 0 then [] else take k b # full_reads k (drop k b))"
  by pat_completeness auto
termination
  by (relation "measure (\<lambda>(k, b). length b)") auto

declare full_reads.simps [simp del]

lemma full_reads_block: "0 < k \<Longrightarrow> length a = k \<Longrightarrow> full_reads k (a @ b) = a # full_reads k b"
  by (subst full_reads.simps) auto

lemma full_reads_listing:
  assumes "\<forall>i \<in> set ids. length i < MAX_ID_LENGTH"
  shows "full_reads MAX_ID_LENGTH (listing ids) = map (zeroed MAX_ID_LENGTH) ids @ [[CHR ''\<newline>'']]"
  using assms
proof (induction ids)
  case Nil
  then show ?case by (simp add: listing_def full_reads.simps [of _ "[CHR ''\<newline>'']"] full_reads.simps [of _ "[]"] MAX_ID_LENGTH_def)
next
  case (Cons i ids)
  have "length (zeroed MAX_ID_LENGTH i) = MAX_ID_LENGTH" using Cons.prems by (simp add: length_zeroed)
  then have "full_reads MAX_ID_LENGTH (zeroed MAX_ID_LENGTH i @ listing ids) = zeroed MAX_ID_LENGTH i # full_reads MAX_ID_LENGTH (listing ids)"
    by (intro full_reads_block) (simp add: MAX_ID_LENGTH_def)
  with Cons show ?case by (simp add: listing_def)
qed

definition listable :: "string \<Rightarrow> bool" where
  "listable i \<longleftrightarrow> NUL \<notin> set i \<and> length i < MAX_ID_LENGTH \<and> take 1 i \<noteq> [CHR ''\<newline>'']"

lemma list_loop_listing:
  assumes "\<forall>i \<in> set ids. listable i" and "length buffer = MAX_ID_LENGTH"
  shows "list_loop buffer (map (zeroed MAX_ID_LENGTH) ids @ [[CHR ''\<newline>'']]) = Some ids"
  using assms
proof (induction ids arbitrary: buffer)
  case Nil
  then show ?case by (simp add: blit_def)
next
  case (Cons i ids)
  let ?z = "zeroed MAX_ID_LENGTH i"
  have i: "NUL \<notin> set i" "length i < MAX_ID_LENGTH" "take 1 i \<noteq> [CHR ''\<newline>'']" using Cons.prems(1) by (simp_all add: listable_def)
  then have z: "length ?z = MAX_ID_LENGTH" "terminated ?z" "cstr ?z = i"
    by (simp_all add: length_zeroed terminated_zeroed)
  then have "?z \<noteq> []" by (auto simp: MAX_ID_LENGTH_def)
  have "?z ! 0 \<noteq> CHR ''\<newline>''" using i by (cases i) (auto simp: zeroed_def MAX_ID_LENGTH_def NUL_def)
  with z \<open>?z \<noteq> []\<close> Cons show ?case by (simp add: Let_def)
qed

text \<open>
  The format of the answer to \<open>/list\<close>: what the server sends for a well-formed list, arriving in
  full blocks of 32 bytes, is printed as exactly the ids of the list.
\<close>

lemma listing_read_back:
  assumes "list_ok s" and "\<forall>i \<in> set (list_ids s). listable i" and "length junk = MAX_ID_LENGTH"
  shows "\<exists>out. command_list (replicate (Suc (length (list_ids s))) True) s = Ret (s, out) \<and>
    getClientList junk True (full_reads MAX_ID_LENGTH out) = Ret (1, list_ids s)"
proof -
  have short: "\<forall>i \<in> set (list_ids s). length i < MAX_ID_LENGTH" using assms(2) by (auto simp: listable_def)
  have "command_list (replicate (Suc (length (list_ids s))) True) s = Ret (s, listing (list_ids s))"
    using sendClientList_ok [OF assms(1) short] by (simp add: command_list_def del: replicate.simps)
  moreover have "getClientList junk True (full_reads MAX_ID_LENGTH (listing (list_ids s))) = Ret (1, list_ids s)"
    using full_reads_listing [OF short] list_loop_listing [OF assms(2,3)] by (simp add: getClientList_def)
  ultimately show ?thesis by blast
qed

lemma strtok_at_word:
  assumes "w \<noteq> []" and "CHR '' '' \<notin> set w" and "NUL \<notin> set w"
  shows "strtok_at (w @ NUL # r) 0 = Some (w, length w, w @ NUL # r)"
proof -
  have "strtok '' '' w = Some (w, [])" using assms(1,2) by (intro strtok_word(2)) auto
  moreover have "takeWhile (\<lambda>c. c = CHR '' '') w = []" using assms(1,2) by (cases w) auto
  ultimately show ?thesis using assms(3) by (simp add: strtok_at_def Let_def nth_append)
qed

section \<open>Properties\<close>

text \<open>
  C30. A client that enters WAIT mode is never put on the server's list: it sends only the
  number of its port, which the server takes for a command it does not know, so that the
  list stays as it was while the client waits.
\<close>

theorem old_chat_wait_not_registered:
  assumes "joinWaitList junk buffer fd True True (Some p) True c = (r, out, c')" and "0 < fd" and "p < 65536"
    and "length buffer = 1024" and "length (ct_command t) = 1024"
  shows "clientMode c' = WAIT \<and> (\<exists>t'. serverThread_turn out pj pg sent t s = Ret (t', s, []))"
proof -
  have len: "length (show_nat p) \<le> 5" using length_show_nat [of p 5] assms(3) by simp
  define rest where "rest = drop (Suc (length (show_nat p))) buffer"
  have out: "out = show_nat p @ NUL # rest" and c': "clientMode c' = WAIT"
    using assms(1,2) by (auto simp: joinWaitList_def blit_def rest_def)
  have "length out = 1024" using len assms(4) unfolding out rest_def by simp
  then have buf: "blit 0 out (ct_command t) = show_nat p @ NUL # rest" using assms(5) out by simp
  have digits: "\<forall>c \<in> set (show_nat p). isdigit c" by (rule show_nat_digits)
  then have "CHR '' '' \<notin> set (show_nat p)" "NUL \<notin> set (show_nat p)" using isdigit_not_NUL by (auto simp: isdigit_def)
  then have tok: "strtok_at (show_nat p @ NUL # rest) 0 = Some (show_nat p, length (show_nat p), show_nat p @ NUL # rest)"
    by (intro strtok_at_word) simp_all
  have "hd (show_nat p) \<noteq> CHR ''/''" using show_nat_no_slash [of p] hd_in_set [OF show_nat_nonempty [of p]] by metis
  then have "show_nat p \<noteq> ''/list''" "show_nat p \<noteq> ''/wait''" "show_nat p \<noteq> ''/connect''" by auto
  then show ?thesis using c' tok buf by (simp add: serverThread_turn_def Let_def terminated_def)
qed

theorem old_chat_wait_not_registered_witness:
  "\<exists>t'. serverThread_turn (fst (snd (joinWaitList 0 (replicate 1024 NUL) 4 True True (Some 40123) True
        \<lparr>clientMode = INFO, infosockfd = 3, waitsockfd = 0, chatsockfd = 0\<rparr>))) [] None []
     \<lparr>ct_id = 0, ct_ipbuf = 1, ct_peer = ''127.0.0.1'', ct_command = replicate 1024 NUL\<rparr> cl_ann = Ret (t', cl_ann, [])"
  using old_chat_wait_not_registered [of 0 "replicate 1024 NUL" 4 40123 "\<lparr>clientMode = INFO, infosockfd = 3, waitsockfd = 0, chatsockfd = 0\<rparr>"
    _ _ _ "\<lparr>ct_id = 0, ct_ipbuf = 1, ct_peer = ''127.0.0.1'', ct_command = replicate 1024 NUL\<rparr>" "[]" None "[]" cl_ann]
  by (metis (no_types, lifting) cthread.select_convs(4) fst_conv length_replicate prod.collapse snd_conv zero_less_numeral numeral_less_iff
      less_num_simps)

text \<open>
  The answer to \<open>/connect\<close> is ignored: whatever the server sends, also DNE, the client
  dials the uninitialised address and port it had before.
\<close>

lemma old_chat_answer_ignored:
  assumes "p_recv e = Some answer"
  shows "connectClient e send_ok i s = connectClient (e\<lparr>p_recv := Some answer', p_buffer := buffer'\<rparr>) send_ok i s"
  using assms by (simp add: connectClient_def dial_peer_def split: option.split)

end
