(* ===== verification/RemoteShell.thy ===== *)
theory RemoteShell
  imports CText
begin

text \<open>
  The remote shell, \<open>archive/shell\<close>: a turn of the forked server process, which runs a command
  and sends its output, a turn of the client, which sends a line and prints what comes back,
  and the two together. The arrays \<open>response\<close> of both programs and \<open>len\<close> of the client are never
  initialised or cleared: what they hold at the start of a turn is an argument of the turn.
\<close>

section \<open>The server\<close>






text \<open>
  \<open>main\<close>: the port it listens on, and the connections that get a process: those for which \<open>fork\<close>
  succeeds (its result in the parent is not negative); the parent closes each and goes on.
\<close>

definition shell_start :: "string \<Rightarrow> bool \<Rightarrow> (16 word \<Rightarrow> bool) \<Rightarrow> bool \<Rightarrow> 16 word option" where
  "shell_start arg socket_ok bind_ok listen_ok =
     (if \<not> socket_ok then None
      else let port = word_of_int (atoi arg) in if \<not> bind_ok port \<or> \<not> listen_ok then None else Some port)"

definition shell_accept :: "(int \<times> int) list \<Rightarrow> int list" where
  "shell_accept conns = map fst (filter (\<lambda>(connfd, pid). 0 \<le> pid) conns)"

section \<open>The client\<close>




text \<open>
  The client from its arguments on: \<open>None\<close> when it cannot connect, otherwise what it sends and
  prints for the lines typed, each with the variables before and what has arrived by then,
  up to \<open>exit\<close> or an overrun.
\<close>

definition shell_connect :: "string \<Rightarrow> string \<Rightarrow> bool \<Rightarrow> (string \<Rightarrow> bool) \<Rightarrow> (string \<Rightarrow> 16 word \<Rightarrow> bool) \<Rightarrow> bool" where
  "shell_connect ip port socket_ok inet_ok connects \<longleftrightarrow>
     socket_ok \<and> inet_ok ip \<and> connects ip (word_of_int (atoi port))"


section \<open>Lemmas\<close>










section \<open>Properties\<close>












end
