(* ===== verification/UdpExercise.thy ===== *)
theory UdpExercise
  imports CText
begin

text \<open>
  The UDP exercise, \<open>archive/file-transfer/udp-file-transfer/src\<close>: a server that answers every
  datagram with the same text, and a client that sends lines and prints the answers.
\<close>

section \<open>The server\<close>

definition udp_start :: "bool \<Rightarrow> (16 word \<Rightarrow> bool) \<Rightarrow> 16 word option" where
  "udp_start socket_ok bind_ok = (if \<not> socket_ok \<or> \<not> bind_ok 5555 then None else Some 5555)"

text \<open>\<open>dg_echo\<close> over the datagrams received: the replies; a datagram beyond the array overruns it.\<close>

fun dg_echo :: "bytes list \<Rightarrow> bytes list option" where
  "dg_echo [] = Some []"
| "dg_echo (d # ds) = (if 10000 < length d then None else map_option ((#) ''got message'') (dg_echo ds))"

lemma dg_echo_replies: "\<forall>d \<in> set ds. length d \<le> 10000 \<Longrightarrow> dg_echo ds = Some (replicate (length ds) ''got message'')"
  by (induction ds) auto

section \<open>The client\<close>

text \<open>
  The loop of \<open>dg_cli\<close>: the lines that \<open>fgets\<close> delivers and the results of \<open>recvfrom\<close> (\<open>None\<close>
  for \<open>-1\<close>, after which the program stores at \<open>recvline[-1]\<close>). The datagrams sent, the text
  printed, and how the loop stops.
\<close>

datatype udp_end = Cli_done | Cli_waiting | Cli_out_of_bounds | Cli_no_stream | Cli_exit int

definition RECVLINE :: nat where
  "RECVLINE = 100000"

fun dg_cli_loop :: "string list \<Rightarrow> bytes option list \<Rightarrow> bytes list \<times> string \<times> udp_end" where
  "dg_cli_loop [] rs = ([], [], Cli_done)"
| "dg_cli_loop (l # ls) [] = ([cstr l], [], Cli_waiting)"
| "dg_cli_loop (l # ls) (None # rs) = ([cstr l], [], Cli_out_of_bounds)"
| "dg_cli_loop (l # ls) (Some d # rs) =
     (case dg_cli_loop ls rs of (sent, shown, e) \<Rightarrow> (cstr l # sent, cstr (take RECVLINE d) @ shown, e))"

text \<open>
  \<open>dg_cli\<close> ignores the stream it is given and passes its descriptor to \<open>fgets\<close>. \<open>streams\<close> are the
  streams by the numerical value of their address; without one at the value of the
  descriptor the call is undefined.
\<close>

definition dg_cli :: "(int \<Rightarrow> string list option) \<Rightarrow> int \<Rightarrow> int \<Rightarrow> bytes option list \<Rightarrow> bytes list \<times> string \<times> udp_end" where
  "dg_cli streams fp sockfd rs =
     (case streams sockfd of None \<Rightarrow> ([], [], Cli_no_stream) | Some ls \<Rightarrow> dg_cli_loop ls rs)"

text \<open>\<open>main\<close>; the result of \<open>socket\<close> is not looked at.\<close>

definition udp_client_main ::
  "bool \<Rightarrow> int \<Rightarrow> (int \<Rightarrow> string list option) \<Rightarrow> int \<Rightarrow> bytes option list \<Rightarrow> bytes list \<times> string \<times> udp_end" where
  "udp_client_main inet_ok sockfd streams stdin rs =
     (if \<not> inet_ok then ([], [], Cli_exit (- 1))
      else case dg_cli streams stdin sockfd rs of (sent, shown, e) \<Rightarrow> (sent, shown, if e = Cli_done then Cli_exit 0 else e))"

section \<open>Both together\<close>

lemma dg_cli_loop_answered:
  "length rs = length ls \<Longrightarrow>
    dg_cli_loop ls (map Some rs) = (map cstr ls, concat (map (\<lambda>d. cstr (take RECVLINE d)) rs), Cli_done)"
  by (induction rs ls rule: list_induct2) simp_all

text \<open>
  If a stream lay at the value of the descriptor, the exercise would do its work: every line
  of at most 10000 characters is sent and answered, and the answers are printed. In an
  address space without one the client does nothing defined, whatever is typed.
\<close>

theorem udp_exercise_answers:
  assumes "\<forall>l \<in> set ls. length l \<le> 10000"
  shows "\<exists>replies. dg_echo (map cstr ls) = Some replies \<and>
      udp_client_main True fd [fd \<mapsto> ls] stdin (map Some replies) =
        (map cstr ls, concat (replicate (length ls) ''got message''), Cli_exit 0) \<and>
      udp_client_main True fd [stdin \<mapsto> ls] stdin rs =
        (if fd = stdin then udp_client_main True fd [fd \<mapsto> ls] stdin rs else ([], [], Cli_no_stream))"
proof -
  have "\<forall>d \<in> set (map cstr ls). length d \<le> 10000"
    using assms by (auto simp: cstr_def intro: le_trans [OF length_takeWhile_le])
  note dg_echo_replies [OF this]
  moreover have "cstr (take RECVLINE ''got message'') = ''got message''" by (simp add: RECVLINE_def cstr_def NUL_def)
  ultimately show ?thesis
    using dg_cli_loop_answered [of "replicate (length ls) ''got message''" ls]
    by (simp add: udp_client_main_def dg_cli_def map_replicate_const)
qed

theorem udp_exercise_answers_witness:
  "udp_client_main True 3 [3 \<mapsto> [''one'', ''two'']] 100 [Some ''got message'', Some ''got message''] =
    ([''one'', ''two''], ''got messagegot message'', Cli_exit 0)"
proof -
  have "map cstr [''one'', ''two''] = [''one'', ''two'']" "dg_echo [''one'', ''two''] = Some [''got message'', ''got message'']"
    by code_simp+
  then show ?thesis using udp_exercise_answers [of "[''one'', ''two'']" 3 100 "[]"] by (simp add: numeral_eq_Suc)
qed

end
