(* ===== verification/Spec2Isabelle.thy ===== *)
theory Spec2Isabelle
  imports FtpTransfer TftpTransfer IrcSystem HttpsClient WebDownload LabPackets OldChatClient RemoteShell UdpExercise
begin

text \<open>
  A verification library for the network command line tools: a TCP file transfer
  (\<open>src/ftp\<close>), a UDP file transfer (\<open>src/tftp\<close>), a chat system (\<open>src/irc\<close>) and a web
  client (\<open>src/https\<close>), and their earlier versions (\<open>src/archive\<close>). Each theory translates one part of the C sources into executable
  definitions and proves what makes it correct, or where it goes wrong.

  \<^bold>\<open>The programs.\<close> A download client reads a list of servers, asks the first one for the
  size of a file (\<open>CHECK\<close>), divides the file into chunks, and starts one thread per chunk;
  each thread sends \<open>GET file offset size\<close> and stores what it receives in its part of a
  shared array, which \<open>main\<close> finally writes to \<open>output.dat\<close>. The TCP server answers one
  connection after the other; the UDP server starts a thread per request, sends packets of
  at most 1016 payload bytes with a sequence number, and waits for an acknowledgement,
  which the receiving loop of its \<open>main\<close> puts into a queue of five entries. The chat server
  keeps a table of connected and one of waiting clients and a thread per client; the chat
  client moves between the modes INFO, WAIT and CHAT. The web client parses a URL, sends
  one request over a socket or TLS and prints or stores the response. The archive holds a
  chat system over a linked list of waiting clients, a TCP transfer that sends its numbers
  in binary, two web downloaders that read a response byte by byte, and a remote shell.

  \<^bold>\<open>The theories.\<close>
  \<^item> \<open>Prelude_Net\<close>: types (\<open>bytes\<close>, \<open>size_t\<close> as a 64-bit word), the C conversions \<open>to_int\<close>,
    \<open>to_size\<close>, \<open>to_ssize\<close>, reading a slice (\<open>seg\<close>) and storing into an array (\<open>blit\<close>), and the
    lemma collections \<open>seg_simps\<close> and \<open>c_defs\<close>.
  \<^item> \<open>CText\<close>: strings in buffers, \<open>snprintf\<close>, \<open>atoi\<close>, an interpreter for the \<open>sscanf\<close>
    formats of the sources, numbers in memory; the round trips of printing and scanning.
  \<^item> \<open>Requests\<close>: the request and reply texts of both file transfers.
  \<^item> \<open>ServerList\<close>: the arguments of both download clients, the file with their servers and the
    distribution of the tasks over the servers.
  \<^item> \<open>ChunkPlan\<close>: the chunk arithmetic of \<open>main\<close> in both \<open>client.c\<close>; the chunks tile the file.
  \<^item> \<open>Concurrent_Chunks\<close>: threads over a shared array under an arbitrary schedule. The
    locale \<open>chunk_thread\<close> is the contract of a thread body; under it every schedule gives
    each chunk what its thread alone gives. Interpreted by \<open>ftp_step\<close> and \<open>tftp_step\<close>.
    \<open>run_process\<close> adds that a thread can end the whole process.
  \<^item> \<open>FtpServer\<close>, \<open>FtpClient\<close>, \<open>FtpTransfer\<close>: \<open>ftp/server.c\<close>, \<open>ftp/client.c\<close> and the two
    together, up to the theorem that a download gives back the file.
  \<^item> \<open>AckQueue\<close>: the acknowledgement queue of \<open>tftp/server.c\<close>; the locale \<open>ack_store\<close> is its
    contract over the list of pending acknowledgements, the array its interpretation.
  \<^item> \<open>TftpServer\<close>, \<open>TftpClient\<close>: the threads of the UDP programs as records of the locals of
    their loops, one definition per half iteration, and the receiving loop.
  \<^item> \<open>TftpProtocol\<close>: the step relation \<open>net_step\<close> over any number of concurrent sessions
    with datagrams in flight, losses and timeouts. Its invariant follows the one token of
    every session (data packet, acknowledgement, queue entry, lost). Safety holds for all
    runs; completion for runs without loss and at most five sessions, by a measure.
  \<^item> \<open>TftpTransfer\<close>: the UDP programs under arbitrary datagrams; the client with its threads,
    which do not interfere unless one of them ends the process.
  \<^item> \<open>Roster\<close>: the locale \<open>roster\<close>, the contract of a bounded table of clients over the
    multiset of its keys, and the loop that closes a gap in an array.
  \<^item> \<open>IrcServer\<close>: \<open>irc/server.c\<close>; its two tables are interpretations of \<open>roster\<close>, its commands
    one definition each, the server a machine over the events of its sockets. The code checks
    no bound of either table; a store beyond one is a named end of the run, \<open>irc_halt\<close>, and the
    theorems say exactly when it happens.
  \<^item> \<open>IrcClient\<close>: \<open>irc/client.c\<close>, its start and one definition per handler.
  \<^item> \<open>IrcSystem\<close>: clients and server together; two clients find each other and chat. TCP keeps no
    boundaries between messages, so an \<open>exchange\<close> is told in which pieces the bytes that a client
    sends arrive at the server.
  \<^item> \<open>HttpsClient\<close>: \<open>https/client.c\<close>, with the results of OpenSSL and socket calls as fields
    of records; from a URL to the stored response.
  \<^item> \<open>ClientList\<close>: \<open>archive/chat/src/clientlist.c\<close>, a linked list in a store of nodes and strings
    with its mutex. The abstraction \<open>list_ids\<close> follows the \<open>next\<close> pointers; under \<open>list_ok\<close> the
    operations refine a list of ids, and they are a third interpretation of \<open>roster\<close>. Loops
    along pointers are partial functions, so that the refinement shows that they end.
  \<^item> \<open>OldChatServer\<close>, \<open>OldChatClient\<close>: \<open>archive/chat/src/myserver.c\<close> and \<open>myclient.c\<close> over that list.
  \<^item> \<open>LabTransfer\<close>: \<open>archive/file-transfer/tcp-file-transfer\<close>, the segments of the threads and
    what the server makes of the bytes they send.
  \<^item> \<open>WebDownload\<close>: \<open>archive/web-downloader\<close>, both programs, each in an environment
    of its own.
  \<^item> \<open>RemoteShell\<close>: \<open>archive/shell\<close>, server and client, over the contents of the arrays that
    neither of them initialises.
  \<^item> \<open>UdpExercise\<close>, \<open>LabPackets\<close>: the two versions of the UDP exercise under
    \<open>archive/file-transfer/udp-file-transfer\<close>, the second with packets as blocks of memory.

  \<^bold>\<open>Correspondence.\<close> A struct or the locals of a loop are a record, an enumeration a
  datatype; \<open>size_t\<close> is a 64-bit word wherever its wrap-around can be observed and a
  natural number where the code bounds it. A system call is an argument that gives its
  result; memory the code reads uninitialised is an argument or a field of the environment
  (\<open>junk\<close>, \<open>w_temp\<close>, \<open>shell_memory\<close>, the name buffer of \<open>lab_serve\<close>), and no theorem assumes
  that it is zero. A step that runs into undefined behaviour has a constructor or \<open>None\<close> of its
  own, and so has a call that would wait for ever in a critical section. After either, and after
  an \<open>exit\<close> in a thread, the process makes no further step. Critical sections are single
  steps. Log output, \<open>sleep\<close> and terminal output are left out.

  \<^bold>\<open>Termination and bounds.\<close> Loops of the code are recursive functions with a measure, or
  steps of a thread that is run a given number of times; \<open>ftp_client_correct\<close> asks for
  one turn more per thread than its chunk has bytes, which is enough because each turn
  receives at least one byte. A completed set of UDP sessions has made at most five steps
  per byte and five per session: send, receive, route, take, and the final ones.

  \<^bold>\<open>Not modelled.\<close> Log and terminal output, \<open>sleep\<close>, the addresses of threads, and failures of
  \<open>malloc\<close> and \<open>calloc\<close> for sizes that fit. What OpenSSL, the resolver and the kernel do is not
  modelled either: their results are arguments. The model of the remote shell takes every message
  to arrive whole, those of the archived TCP transfer take the results of the single reads. The build files and the test data of the
  archive hold no code.
\<close>

end
